theory Spec2Isabelle
  imports Complex_Main "HOL-Library.Sublist"
begin

section \<open>The world the three scripts run in\<close>

text \<open>
  The orchestrator is three sequential Python scripts: \<^verbatim>\<open>trigger_scans.py\<close>,
  \<^verbatim>\<open>collect_reports.py\<close> and \<^verbatim>\<open>aggregate_reports.py\<close>. The first two talk
  to a remote CI system through PyGithub and \<^verbatim>\<open>requests\<close>, read the wall clock
  and sleep. Every such effect is an \<open>event\<close>; a run of a script threads the list of
  events so far (the trace, oldest first) through its functions.

  What the outside answers is a script of the world: each oracle takes the number of
  events that happened before the call, so the same question may be answered differently
  at different moments (a workflow run that is \<open>queued\<close> now and \<open>completed\<close>
  later). Nothing is assumed about the oracles: the clock need not even advance.

  A call into PyGithub answers, or raises \<^verbatim>\<open>GithubException\<close>, or raises something
  else (a transport error of \<^verbatim>\<open>requests\<close>, say). The handlers around the calls that
  dispatch, list the runs and query a status catch \<^verbatim>\<open>GithubException\<close> alone, so for
  these calls the third outcome is modelled too: it leaves the function, the loop around
  it and the script. The consecutive PyGithub calls of one \<^verbatim>\<open>try\<close> block are one
  remote step, whose outcome is the answer of the last call or the exception that one of
  them raised.
\<close>

datatype event =
    Clock_read
  | Sleep int
  | Remote_dispatch string string string
  | Remote_list_runs string string
  | Remote_status string int
  | Remote_list_artifacts string int
  | Remote_download string int

text \<open>
  An exception that no handler catches, by its name.
\<close>

type_synonym uncaught = string

text \<open>
  \<^verbatim>\<open>workflow.create_dispatch(branch)\<close>: its boolean, the message of a
  \<^verbatim>\<open>GithubException\<close>, or another exception.
\<close>

datatype dispatch_outcome =
    Dispatch_returns bool
  | Dispatch_raises string
  | Dispatch_raises_other string

text \<open>One entry of \<^verbatim>\<open>workflow.get_runs()\<close>: the run's \<^verbatim>\<open>id\<close> and \<^verbatim>\<open>created_at\<close>.\<close>

record workflow_run =
  wr_id :: int
  created_at :: rat

datatype runs_outcome =
    Runs_listed "workflow_run list"
  | Runs_raises string
  | Runs_raises_other string

text \<open>\<^verbatim>\<open>repo.get_workflow_run(run_id)\<close>: the run's \<^verbatim>\<open>status\<close> and \<^verbatim>\<open>conclusion\<close>.\<close>

datatype status_outcome =
    Run_state string "string option"
  | Status_raises string
  | Status_raises_other string

text \<open>One entry of \<^verbatim>\<open>workflow_run.get_artifacts()\<close>.\<close>

record artifact =
  art_name :: string
  art_id :: int

datatype artifacts_outcome = Artifacts_listed "artifact list" | Artifacts_raises string

text \<open>
  Times (\<^verbatim>\<open>time.time()\<close>, \<^verbatim>\<open>datetime.now\<close>, \<^verbatim>\<open>created_at\<close>) are rational
  numbers of seconds. \<open>download_at\<close> is whether \<^verbatim>\<open>requests.get\<close>,
  \<^verbatim>\<open>raise_for_status\<close> and the extraction of the archive all went through.
\<close>

record world =
  now_at :: "nat \<Rightarrow> rat"
  dispatch_at :: "nat \<Rightarrow> string \<Rightarrow> string \<Rightarrow> string \<Rightarrow> dispatch_outcome"
  runs_at :: "nat \<Rightarrow> string \<Rightarrow> string \<Rightarrow> runs_outcome"
  status_at :: "nat \<Rightarrow> string \<Rightarrow> int \<Rightarrow> status_outcome"
  artifacts_at :: "nat \<Rightarrow> string \<Rightarrow> int \<Rightarrow> artifacts_outcome"
  download_at :: "nat \<Rightarrow> string \<Rightarrow> int \<Rightarrow> bool"

text \<open>
  How a script ends: \<^verbatim>\<open>sys.exit(code)\<close>, an exception that nothing caught, or
  \<open>main\<close> returns having written its output.
\<close>

datatype 'a ending = Exited int | Raised uncaught | Wrote 'a

text \<open>The kinds of event a property of a trace counts.\<close>

fun is_dispatch :: "event \<Rightarrow> bool" where
  "is_dispatch (Remote_dispatch repo_name wfile br) = True"
| "is_dispatch _ = False"

fun is_status :: "event \<Rightarrow> bool" where
  "is_status (Remote_status repo_name rid) = True"
| "is_status _ = False"

fun is_sleep :: "event \<Rightarrow> bool" where
  "is_sleep (Sleep n) = True"
| "is_sleep _ = False"

section \<open>The run record\<close>

text \<open>
  The dictionary \<^verbatim>\<open>trigger_workflow\<close> builds, which the trigger output file lists
  under \<^verbatim>\<open>runs\<close> and \<^verbatim>\<open>collect_reports.py\<close> reads back. The last three keys are
  the ones \<^verbatim>\<open>wait_for_completion\<close> adds: a key that is absent is \<open>None\<close>
  (\<open>False\<close> for \<^verbatim>\<open>completed\<close>, which the source only reads with \<^verbatim>\<open>run.get\<close>).
\<close>

record run =
  repo :: string
  workflow_file :: string
  branch :: string
  status :: string
  run_id :: "int option"
  error :: "string option"
  triggered_at :: rat
  run_status :: "string option"
  run_conclusion :: "string option"
  completed :: bool

text \<open>Python's truth value of an optional integer: \<^verbatim>\<open>None\<close> and \<^verbatim>\<open>0\<close> are false.\<close>

definition truthy_id :: "int option \<Rightarrow> bool" where
  "truthy_id v = (case v of None \<Rightarrow> False | Some n \<Rightarrow> n \<noteq> 0)"

section \<open>trigger\_scans.py\<close>

text \<open>
  One entry of the list \<^verbatim>\<open>get_repos_to_scan\<close> returns, for a repository whose
  configuration gives it a name.
\<close>

record repo_config =
  cfg_name :: string
  cfg_workflow_file :: string
  cfg_branch :: string
  cfg_exclude_dirs :: string
  cfg_enabled :: bool

definition trigger_workflow ::
  "world \<Rightarrow> string \<Rightarrow> string \<Rightarrow> string \<Rightarrow> bool \<Rightarrow> event list \<Rightarrow>
   (uncaught + run) \<times> event list" where
  "trigger_workflow w repo_name wfile br is_dry tr =
     (let result = \<lparr>repo = repo_name, workflow_file = wfile, branch = br,
                     status = ''unknown'', run_id = None, error = None,
                     triggered_at = now_at w (length tr),
                     run_status = None, run_conclusion = None, completed = False\<rparr>;
          tr1 = tr @ [Clock_read]
      in if is_dry then (Inr (result\<lparr>status := ''dry_run''\<rparr>), tr1)
         else
           (case dispatch_at w (length tr1) repo_name wfile br of
              Dispatch_returns success \<Rightarrow>
                if success
                then (Inr (result\<lparr>status := ''triggered''\<rparr>),
                      tr1 @ [Remote_dispatch repo_name wfile br])
                else (Inr (result\<lparr>status := ''failed'',
                                  error := Some ''create_dispatch returned False''\<rparr>),
                      tr1 @ [Remote_dispatch repo_name wfile br])
            | Dispatch_raises e \<Rightarrow>
                (Inr (result\<lparr>status := ''error'', error := Some e\<rparr>),
                 tr1 @ [Remote_dispatch repo_name wfile br])
            | Dispatch_raises_other x \<Rightarrow>
                (Inl x, tr1 @ [Remote_dispatch repo_name wfile br])))"

text \<open>
  \<^verbatim>\<open>for run in runs[:10]\<close>: the first of the ten newest runs created at or after the
  trigger time; \<open>None\<close> when there is none or the listing raises.
\<close>

definition get_latest_run_id ::
  "world \<Rightarrow> string \<Rightarrow> string \<Rightarrow> rat \<Rightarrow> event list \<Rightarrow>
   (uncaught + int option) \<times> event list" where
  "get_latest_run_id w repo_name wfile triggered_after tr =
     (case runs_at w (length tr) repo_name wfile of
        Runs_listed rs \<Rightarrow>
          (Inr (map_option wr_id (find (\<lambda>r. created_at r \<ge> triggered_after) (take 10 rs))),
           tr @ [Remote_list_runs repo_name wfile])
      | Runs_raises e \<Rightarrow> (Inr None, tr @ [Remote_list_runs repo_name wfile])
      | Runs_raises_other x \<Rightarrow> (Inl x, tr @ [Remote_list_runs repo_name wfile]))"

text \<open>
  The loop \<^verbatim>\<open>for repo_config in repos\<close> of \<open>main\<close>, appending one result each. An
  exception that \<^verbatim>\<open>trigger_workflow\<close> lets through ends the loop there.
\<close>

fun trigger_all ::
  "world \<Rightarrow> repo_config list \<Rightarrow> bool \<Rightarrow> event list \<Rightarrow> (uncaught + run list) \<times> event list" where
  "trigger_all w [] is_dry tr = (Inr [], tr)"
| "trigger_all w (rc # rcs) is_dry tr =
     (case trigger_workflow w (cfg_name rc) (cfg_workflow_file rc) (cfg_branch rc) is_dry tr of
        (Inl x, tr1) \<Rightarrow> (Inl x, tr1)
      | (Inr result, tr1) \<Rightarrow>
          (case trigger_all w rcs is_dry tr1 of
             (Inl x, tr2) \<Rightarrow> (Inl x, tr2)
           | (Inr results, tr2) \<Rightarrow> (Inr (result # results), tr2)))"

text \<open>The loop \<^verbatim>\<open>for result in results\<close> of \<open>main\<close> that looks the run ids up.\<close>

fun fetch_run_ids ::
  "world \<Rightarrow> rat \<Rightarrow> run list \<Rightarrow> event list \<Rightarrow> (uncaught + run list) \<times> event list" where
  "fetch_run_ids w tt [] tr = (Inr [], tr)"
| "fetch_run_ids w tt (r # rs) tr =
     (if status r = ''triggered''
      then
        (case get_latest_run_id w (repo r) (workflow_file r) tt tr of
           (Inl x, tr1) \<Rightarrow> (Inl x, tr1)
         | (Inr rid, tr1) \<Rightarrow>
             (case fetch_run_ids w tt rs tr1 of
                (Inl x, tr2) \<Rightarrow> (Inl x, tr2)
              | (Inr rs', tr2) \<Rightarrow>
                  (Inr ((if truthy_id rid then r\<lparr>run_id := rid\<rparr> else r) # rs'), tr2)))
      else
        (case fetch_run_ids w tt rs tr of
           (Inl x, tr2) \<Rightarrow> (Inl x, tr2)
         | (Inr rs', tr2) \<Rightarrow> (Inr (r # rs'), tr2)))"

record trigger_output =
  trigger_time :: rat
  total_repos :: nat
  triggered :: nat
  failed :: nat
  dry_run :: bool
  runs :: "run list"

text \<open>
  \<open>main\<close> of \<^verbatim>\<open>trigger_scans.py\<close>, from the list of repositories on (the parsing
  of the arguments and of the configuration file comes before). With no repository it
  leaves through \<^verbatim>\<open>sys.exit(0)\<close> before anything is dispatched or written; an
  exception that one of the two loops lets through ends it before the output is written.
\<close>

definition main_trigger ::
  "world \<Rightarrow> repo_config list \<Rightarrow> bool \<Rightarrow> trigger_output ending \<times> event list" where
  "main_trigger w repos is_dry =
     (if repos = [] then (Exited 0, [])
      else
        (case trigger_all w repos is_dry [Clock_read] of
           (Inl x, tr1) \<Rightarrow> (Raised x, tr1)
         | (Inr results, tr1) \<Rightarrow>
             (case (if \<not> is_dry
                    then fetch_run_ids w (now_at w 0) results (tr1 @ [Sleep 5])
                    else (Inr results, tr1)) of
                (Inl x, tr2) \<Rightarrow> (Raised x, tr2)
              | (Inr results', tr2) \<Rightarrow>
                  (Wrote \<lparr>trigger_time = now_at w 0,
                          total_repos = length repos,
                          triggered = length (filter (\<lambda>r. status r = ''triggered'') results'),
                          failed = length (filter (\<lambda>r. status r = ''failed'' \<or> status r = ''error'')
                                             results'),
                          dry_run = is_dry,
                          runs = results'\<rparr>,
                   tr2))))"

section \<open>collect\_reports.py\<close>

subsection \<open>Polling\<close>

text \<open>The dictionary \<^verbatim>\<open>check_run_status\<close> returns.\<close>

record status_info =
  st_status :: string
  st_conclusion :: "string option"
  st_completed :: bool
  st_error :: "string option"

definition check_run_status ::
  "world \<Rightarrow> string \<Rightarrow> int \<Rightarrow> event list \<Rightarrow> (uncaught + status_info) \<times> event list" where
  "check_run_status w repo_name rid tr =
     (case status_at w (length tr) repo_name rid of
        Run_state s c \<Rightarrow>
          (Inr \<lparr>st_status = s, st_conclusion = c, st_completed = (s = ''completed''),
                st_error = None\<rparr>,
           tr @ [Remote_status repo_name rid])
      | Status_raises e \<Rightarrow>
          (Inr \<lparr>st_status = ''error'', st_conclusion = None, st_completed = False,
                st_error = Some e\<rparr>,
           tr @ [Remote_status repo_name rid])
      | Status_raises_other x \<Rightarrow> (Inl x, tr @ [Remote_status repo_name rid]))"

text \<open>
  The body of \<^verbatim>\<open>for run in pending_runs\<close>, for one run whose truthy run id is
  \<open>rid\<close>. The pair is the loop's \<^verbatim>\<open>all_completed\<close> and \<^verbatim>\<open>completed_count\<close>.
\<close>

definition poll_run ::
  "world \<Rightarrow> run \<Rightarrow> int \<Rightarrow> bool \<times> nat \<Rightarrow> event list \<Rightarrow>
   (uncaught + run \<times> bool \<times> nat) \<times> event list" where
  "poll_run w r rid acc tr =
     (case acc of (all_completed, completed_count) \<Rightarrow>
        if completed r then (Inr (r, all_completed, Suc completed_count), tr)
        else
          (case check_run_status w (repo r) rid tr of
             (Inl x, tr1) \<Rightarrow> (Inl x, tr1)
           | (Inr st, tr1) \<Rightarrow>
               (let r1 = r\<lparr>run_status := Some (st_status st),
                           run_conclusion := st_conclusion st\<rparr>
                in if st_completed st
                   then (Inr (r1\<lparr>completed := True\<rparr>, all_completed, Suc completed_count), tr1)
                   else (Inr (r1, False, completed_count), tr1))))"

text \<open>
  One round of polling. \<^verbatim>\<open>pending_runs\<close> holds the dictionaries of \<^verbatim>\<open>runs\<close> whose
  \<^verbatim>\<open>run_id\<close> is truthy, the same objects in the same order, so the round walks
  \<^verbatim>\<open>runs\<close>, passes over a run with no run id and rewrites the others in place. An
  exception that a status query lets through ends the round, and the script with it.
\<close>

fun poll_round ::
  "world \<Rightarrow> run list \<Rightarrow> bool \<times> nat \<Rightarrow> event list \<Rightarrow>
   (uncaught + run list \<times> bool \<times> nat) \<times> event list" where
  "poll_round w [] acc tr = (Inr ([], acc), tr)"
| "poll_round w (r # rs) acc tr =
     (case (if truthy_id (run_id r) then run_id r else None) of
        None \<Rightarrow>
          (case poll_round w rs acc tr of
             (Inl x, tr') \<Rightarrow> (Inl x, tr')
           | (Inr (rs', acc'), tr') \<Rightarrow> (Inr (r # rs', acc'), tr'))
      | Some rid \<Rightarrow>
          (case poll_run w r rid acc tr of
             (Inl x, tr1) \<Rightarrow> (Inl x, tr1)
           | (Inr (r', acc1), tr1) \<Rightarrow>
               (case poll_round w rs acc1 tr1 of
                  (Inl x, tr') \<Rightarrow> (Inl x, tr')
                | (Inr (rs', acc'), tr') \<Rightarrow> (Inr (r' # rs', acc'), tr'))))"

text \<open>
  The \<^verbatim>\<open>while True\<close> of \<^verbatim>\<open>wait_for_completion\<close>. It need not end (a clock that
  stands still, a run that never completes), so the result is optional: \<open>None\<close> is the
  loop that never returns. \<^verbatim>\<open>time.sleep\<close> raises \<^verbatim>\<open>ValueError\<close> on a negative
  length. The elapsed time is the exact difference of the two readings, where the source
  has the rounded difference of two doubles.
\<close>

partial_function (option) wait_loop ::
  "world \<Rightarrow> rat \<Rightarrow> int \<Rightarrow> int \<Rightarrow> run list \<Rightarrow> event list \<Rightarrow>
   ((uncaught + run list) \<times> event list) option" where
  "wait_loop w start_time timeout_seconds poll_interval_seconds rs tr =
     (if now_at w (length tr) - start_time > of_int timeout_seconds
      then Some (Inr rs, tr @ [Clock_read])
      else
        (case poll_round w rs (True, 0) (tr @ [Clock_read]) of
           (Inl x, tr1) \<Rightarrow> Some (Inl x, tr1)
         | (Inr (rs', all_completed, completed_count), tr1) \<Rightarrow>
             if all_completed then Some (Inr rs', tr1)
             else if poll_interval_seconds < 0 then Some (Inl ''ValueError'', tr1)
             else wait_loop w start_time timeout_seconds poll_interval_seconds rs'
                    (tr1 @ [Sleep poll_interval_seconds])))"

declare wait_loop.simps [code]

definition wait_for_completion ::
  "world \<Rightarrow> run list \<Rightarrow> int \<Rightarrow> int \<Rightarrow> event list \<Rightarrow>
   ((uncaught + run list) \<times> event list) option" where
  "wait_for_completion w rs timeout_minutes poll_interval_seconds tr =
     (if filter (\<lambda>r. truthy_id (run_id r)) rs = [] then Some (Inr rs, tr @ [Clock_read])
      else wait_loop w (now_at w (length tr)) (timeout_minutes * 60) poll_interval_seconds rs
             (tr @ [Clock_read]))"

subsection \<open>Collecting\<close>

text \<open>Python's \<^verbatim>\<open>needle in haystack\<close> on strings.\<close>

definition py_in :: "string \<Rightarrow> string \<Rightarrow> bool" where
  "py_in needle haystack = sublist needle haystack"

text \<open>
  \<^verbatim>\<open>download_artifact\<close> catches every exception, so its result is a boolean whatever
  the network does.
\<close>

definition download_artifact ::
  "world \<Rightarrow> string \<Rightarrow> int \<Rightarrow> event list \<Rightarrow> bool \<times> event list" where
  "download_artifact w repo_name artifact_id tr =
     (download_at w (length tr) repo_name artifact_id,
      tr @ [Remote_download repo_name artifact_id])"

text \<open>\<^verbatim>\<open>repo_name.replace("/", "-")\<close>, the name of the repository's own directory.\<close>

definition repo_dir_name :: "string \<Rightarrow> string" where
  "repo_dir_name repo_name = map (\<lambda>c. if c = CHR ''/'' then CHR ''-'' else c) repo_name"

text \<open>\<^verbatim>\<open>str(output_dir / ...)\<close>, for an output directory written without a final slash.\<close>

definition repo_dir :: "string \<Rightarrow> string \<Rightarrow> string" where
  "repo_dir output_dir repo_name = output_dir @ ''/'' @ repo_dir_name repo_name"

record collection_result =
  res_repo :: string
  res_status :: string
  res_reason :: "string option"
  res_output_dir :: "string option"
  res_error :: "string option"

text \<open>The two tests on an artifact's name: the canonical token, and the other two.\<close>

definition is_canonical :: "artifact \<Rightarrow> bool" where
  "is_canonical a = py_in ''nim-scan-report'' (art_name a)"

definition is_fallback :: "artifact \<Rightarrow> bool" where
  "is_fallback a =
     list_ex (\<lambda>nm. py_in nm (art_name a)) [''docker-image-report'', ''hosted-nim-report'']"

text \<open>The first loop over the artifacts: \<^verbatim>\<open>found_report\<close> is set by a download that succeeds.\<close>

fun download_canonical ::
  "world \<Rightarrow> string \<Rightarrow> artifact list \<Rightarrow> bool \<Rightarrow> event list \<Rightarrow> bool \<times> event list" where
  "download_canonical w repo_name [] found_report tr = (found_report, tr)"
| "download_canonical w repo_name (a # arts) found_report tr =
     (if is_canonical a
      then
        (case download_artifact w repo_name (art_id a) tr of
           (ok, tr1) \<Rightarrow>
             download_canonical w repo_name arts (if ok then True else found_report) tr1)
      else download_canonical w repo_name arts found_report tr)"

text \<open>The second loop: the result of the download is dropped, \<^verbatim>\<open>found_report\<close> is set.\<close>

fun download_fallback ::
  "world \<Rightarrow> string \<Rightarrow> artifact list \<Rightarrow> bool \<Rightarrow> event list \<Rightarrow> bool \<times> event list" where
  "download_fallback w repo_name [] found_report tr = (found_report, tr)"
| "download_fallback w repo_name (a # arts) found_report tr =
     (if is_fallback a
      then
        (case download_artifact w repo_name (art_id a) tr of
           (ok, tr1) \<Rightarrow> download_fallback w repo_name arts True tr1)
      else download_fallback w repo_name arts found_report tr)"

definition skipped :: "string \<Rightarrow> string \<Rightarrow> collection_result" where
  "skipped repo_name why =
     \<lparr>res_repo = repo_name, res_status = ''skipped'', res_reason = Some why,
      res_output_dir = None, res_error = None\<rparr>"

text \<open>
  The body of \<^verbatim>\<open>for run in runs\<close> of \<^verbatim>\<open>collect_reports\<close>: the result it appends.
  The artifacts are listed in one remote step, before the first download.
\<close>

definition collect_run ::
  "world \<Rightarrow> string \<Rightarrow> run \<Rightarrow> event list \<Rightarrow> collection_result \<times> event list" where
  "collect_run w output_dir r tr =
     (case (if truthy_id (run_id r) then run_id r else None) of
        None \<Rightarrow> (skipped (repo r) ''no_run_id'', tr)
      | Some rid \<Rightarrow>
          if \<not> completed r then (skipped (repo r) ''not_completed'', tr)
          else
            (case artifacts_at w (length tr) (repo r) rid of
               Artifacts_raises e \<Rightarrow>
                 (\<lparr>res_repo = repo r, res_status = ''error'', res_reason = None,
                   res_output_dir = None, res_error = Some e\<rparr>,
                  tr @ [Remote_list_artifacts (repo r) rid])
             | Artifacts_listed arts \<Rightarrow>
                 (case download_canonical w (repo r) arts False
                         (tr @ [Remote_list_artifacts (repo r) rid]) of
                    (found_report, tr1) \<Rightarrow>
                      if found_report
                      then (\<lparr>res_repo = repo r, res_status = ''collected'', res_reason = None,
                              res_output_dir = Some (repo_dir output_dir (repo r)),
                              res_error = None\<rparr>,
                            tr1)
                      else
                        (case download_fallback w (repo r) arts found_report tr1 of
                           (found_other, tr2) \<Rightarrow>
                             if found_other
                             then (\<lparr>res_repo = repo r, res_status = ''partial'',
                                     res_reason = None,
                                     res_output_dir = Some (repo_dir output_dir (repo r)),
                                     res_error = None\<rparr>,
                                   tr2)
                             else (\<lparr>res_repo = repo r, res_status = ''no_artifacts'',
                                     res_reason = None, res_output_dir = None,
                                     res_error = None\<rparr>,
                                   tr2)))))"

fun collect_reports ::
  "world \<Rightarrow> string \<Rightarrow> run list \<Rightarrow> event list \<Rightarrow> collection_result list \<times> event list" where
  "collect_reports w output_dir [] tr = ([], tr)"
| "collect_reports w output_dir (r # rs) tr =
     (case collect_run w output_dir r tr of
        (res, tr1) \<Rightarrow>
          (case collect_reports w output_dir rs tr1 of
             (results, tr2) \<Rightarrow> (res # results, tr2)))"

section \<open>aggregate\_reports.py\<close>

subsection \<open>What \<^verbatim>\<open>json.load\<close> returns\<close>

text \<open>
  A report is whatever JSON document a repository's scan wrote. An object is its list of
  keys and values in the order of the document, each key once, as a Python
  dictionary keeps them. A float is the rational it stands for.
\<close>

datatype json =
    JNull
  | JBool bool
  | JInt int
  | JFloat rat
  | JStr string
  | JArr "json list"
  | JObj "(string \<times> json) list"

type_synonym py_dict = "(string \<times> json) list"

datatype py_error = AttributeError | TypeError

text \<open>\<^verbatim>\<open>d.get(key, default)\<close>.\<close>

definition dict_get :: "py_dict \<Rightarrow> string \<Rightarrow> json \<Rightarrow> json" where
  "dict_get d k dflt = (case map_of d k of None \<Rightarrow> dflt | Some v \<Rightarrow> v)"

text \<open>\<^verbatim>\<open>d[key] = v\<close>: a key already there keeps its place, a new one goes last.\<close>

definition dict_set :: "py_dict \<Rightarrow> string \<Rightarrow> json \<Rightarrow> py_dict" where
  "dict_set d k v = (if k \<in> fst ` set d then map (\<lambda>(k', v'). if k' = k then (k', v) else (k', v')) d
                     else d @ [(k, v)])"

text \<open>Python's truth value.\<close>

fun truthy :: "json \<Rightarrow> bool" where
  "truthy JNull = False"
| "truthy (JBool b) = b"
| "truthy (JInt i) = (i \<noteq> 0)"
| "truthy (JFloat q) = (q \<noteq> 0)"
| "truthy (JStr s) = (s \<noteq> [])"
| "truthy (JArr xs) = (xs \<noteq> [])"
| "truthy (JObj kvs) = (kvs \<noteq> [])"

text \<open>
  \<^verbatim>\<open>x.get\<close> exists on a dictionary only: on any other value the attribute lookup raises
  \<^verbatim>\<open>AttributeError\<close>.
\<close>

fun as_dict :: "json \<Rightarrow> py_error + py_dict" where
  "as_dict (JObj kvs) = Inr kvs"
| "as_dict _ = Inl AttributeError"

text \<open>
  The key a value is as the key of a dictionary: equal keys are one entry, and Python has
  \<^verbatim>\<open>True == 1 == 1.0\<close>. A list and a dictionary are unhashable: using one as a key raises
  \<^verbatim>\<open>TypeError\<close>.
\<close>

datatype pykey = Key_none | Key_num rat | Key_str string

fun hash_key :: "json \<Rightarrow> py_error + pykey" where
  "hash_key JNull = Inr Key_none"
| "hash_key (JBool b) = Inr (Key_num (if b then 1 else 0))"
| "hash_key (JInt i) = Inr (Key_num (of_int i))"
| "hash_key (JFloat q) = Inr (Key_num q)"
| "hash_key (JStr s) = Inr (Key_str s)"
| "hash_key (JArr xs) = Inl TypeError"
| "hash_key (JObj kvs) = Inl TypeError"

subsection \<open>Tallies\<close>

text \<open>
  A \<^verbatim>\<open>Counter\<close>, and the dictionary \<^verbatim>\<open>dict(counter)\<close> made of it: the keys counted so
  far, in the order they first came, each with its count. \<^verbatim>\<open>counter[k] += 1\<close> reads a
  key that is not there as 0.
\<close>

type_synonym counter = "(pykey \<times> nat) list"

definition count_of :: "counter \<Rightarrow> pykey \<Rightarrow> nat" where
  "count_of c k = (case map_of c k of None \<Rightarrow> 0 | Some n \<Rightarrow> n)"

definition incr :: "counter \<Rightarrow> pykey \<Rightarrow> counter" where
  "incr c k = (if k \<in> fst ` set c
               then map (\<lambda>(k', n). if k' = k then (k', Suc n) else (k', n)) c
               else c @ [(k, 1)])"

definition support_bucket :: "py_dict \<Rightarrow> string" where
  "support_bucket summary =
     (let supports_local = dict_get summary ''supports_local_nim'' (JBool False);
          supports_hosted = dict_get summary ''supports_hosted_nim'' (JBool False)
      in if truthy supports_local \<and> truthy supports_hosted then ''both''
         else if truthy supports_local then ''local_only''
         else if truthy supports_hosted then ''hosted_only''
         else ''none'')"

definition usage_bucket :: "py_dict \<Rightarrow> string" where
  "usage_bucket summary =
     (let uses_local = dict_get summary ''uses_local_nim_in_actions'' (JBool False);
          uses_hosted = dict_get summary ''uses_hosted_nim_in_actions'' (JBool False)
      in if truthy uses_local \<and> truthy uses_hosted then ''both_in_actions''
         else if truthy uses_local then ''local_in_actions''
         else if truthy uses_hosted then ''hosted_in_actions''
         else ''none_in_actions'')"

text \<open>The three counters of \<^verbatim>\<open>aggregate_statistics\<close>, in the order it declares them.\<close>

record tallies =
  classifications :: counter
  support_types :: counter
  actions_usage :: counter

text \<open>
  The body of \<^verbatim>\<open>for report in reports\<close>. The classification is counted first, so an
  unhashable one raises before the summary is read; a summary that is not a dictionary
  raises at its first \<^verbatim>\<open>.get\<close>.
\<close>

definition tally_report :: "py_dict \<Rightarrow> tallies \<Rightarrow> py_error + tallies" where
  "tally_report report t =
     (case hash_key (dict_get report ''classification'' (JStr ''UNKNOWN'')) of
        Inl e \<Rightarrow> Inl e
      | Inr classification \<Rightarrow>
          (case as_dict (dict_get report ''summary'' (JObj [])) of
             Inl e \<Rightarrow> Inl e
           | Inr summary \<Rightarrow>
               Inr \<lparr>classifications = incr (classifications t) classification,
                    support_types = incr (support_types t) (Key_str (support_bucket summary)),
                    actions_usage = incr (actions_usage t) (Key_str (usage_bucket summary))\<rparr>))"

fun tally_all :: "py_dict list \<Rightarrow> tallies \<Rightarrow> py_error + tallies" where
  "tally_all [] t = Inr t"
| "tally_all (report # reports) t =
     (case tally_report report t of
        Inl e \<Rightarrow> Inl e
      | Inr t' \<Rightarrow> tally_all reports t')"

text \<open>The dictionary of the three tables \<^verbatim>\<open>aggregate_statistics\<close> returns.\<close>

type_synonym statistics = "(string \<times> counter) list"

definition aggregate_statistics :: "py_dict list \<Rightarrow> py_error + statistics" where
  "aggregate_statistics reports =
     (case tally_all reports \<lparr>classifications = [], support_types = [], actions_usage = []\<rparr> of
        Inl e \<Rightarrow> Inl e
      | Inr t \<Rightarrow>
          Inr [(''by_classification'', classifications t),
               (''by_support_type'', support_types t),
               (''by_actions_usage'', actions_usage t)])"

text \<open>The count a table gives a bucket; a table or a bucket that is not there counts 0.\<close>

definition bucket_count :: "statistics \<Rightarrow> string \<Rightarrow> string \<Rightarrow> nat" where
  "bucket_count stats table bucket =
     (case map_of stats table of None \<Rightarrow> 0 | Some c \<Rightarrow> count_of c (Key_str bucket))"

subsection \<open>Loading\<close>

text \<open>
  The reports directory as \<^verbatim>\<open>load_repo_reports\<close> sees it: its entries in the order
  \<^verbatim>\<open>iterdir\<close> yields them, each with the entries inside it in the order \<^verbatim>\<open>glob\<close> yields
  them. Opening and parsing a file gives a document, or raises.
\<close>

datatype load_outcome = Parsed json | Load_raises

record dir_entry =
  entry_name :: string
  is_dir :: bool
  entry_files :: "(string \<times> load_outcome) list"

text \<open>\<^verbatim>\<open>str.lower\<close> and \<^verbatim>\<open>str.startswith\<close>, on ASCII names.\<close>

definition lower_char :: "char \<Rightarrow> char" where
  "lower_char c =
     (case map_of (zip ''ABCDEFGHIJKLMNOPQRSTUVWXYZ'' ''abcdefghijklmnopqrstuvwxyz'') c of
        None \<Rightarrow> c
      | Some d \<Rightarrow> d)"

definition lower :: "string \<Rightarrow> string" where
  "lower s = map lower_char s"

definition startswith :: "string \<Rightarrow> string \<Rightarrow> bool" where
  "startswith s p = prefix p s"

text \<open>
  \<^verbatim>\<open>report[key] = v\<close> on what was parsed: item assignment with a string key raises
  \<^verbatim>\<open>TypeError\<close> on everything but a dictionary.
\<close>

fun set_item :: "json \<Rightarrow> string \<Rightarrow> json \<Rightarrow> py_error + py_dict" where
  "set_item (JObj kvs) k v = Inr (dict_set kvs k v)"
| "set_item _ k v = Inl TypeError"

text \<open>
  The two \<^verbatim>\<open>try\<close> blocks of \<^verbatim>\<open>load_repo_reports\<close>: the reports to append, none when
  anything inside raised (\<^verbatim>\<open>except Exception\<close>).
\<close>

definition load_canonical :: "string \<Rightarrow> load_outcome \<Rightarrow> py_dict list" where
  "load_canonical source_dir f =
     (case f of
        Load_raises \<Rightarrow> []
      | Parsed doc \<Rightarrow>
          (case set_item doc ''_source_dir'' (JStr source_dir) of
             Inl e \<Rightarrow> []
           | Inr report \<Rightarrow> [report]))"

definition load_other :: "string \<Rightarrow> string \<Rightarrow> load_outcome \<Rightarrow> py_dict list" where
  "load_other source_dir file_name f =
     (case f of
        Load_raises \<Rightarrow> []
      | Parsed doc \<Rightarrow>
          (case set_item doc ''_source_dir'' (JStr source_dir) of
             Inl e \<Rightarrow> []
           | Inr report \<Rightarrow> [dict_set report ''_source_file'' (JStr file_name)]))"

text \<open>What one entry of the reports directory adds to \<^verbatim>\<open>reports\<close>.\<close>

definition load_repo_dir :: "string \<Rightarrow> dir_entry \<Rightarrow> py_dict list" where
  "load_repo_dir reports_dir d =
     (if \<not> is_dir d then []
      else if startswith (entry_name d) ''.'' then []
      else
        (case map_of (entry_files d) ''nim-scan-report.json'' of
           Some f \<Rightarrow> load_canonical (reports_dir @ ''/'' @ entry_name d) f
         | None \<Rightarrow>
             concat (map (\<lambda>(file_name, f).
                            if suffix ''.json'' file_name \<and> py_in ''report'' (lower file_name)
                            then load_other (reports_dir @ ''/'' @ entry_name d) file_name f
                            else [])
                         (entry_files d))))"

text \<open>\<open>None\<close> is a reports directory that does not exist.\<close>

definition load_repo_reports :: "string \<Rightarrow> dir_entry list option \<Rightarrow> py_dict list" where
  "load_repo_reports reports_dir listing =
     (case listing of
        None \<Rightarrow> []
      | Some entries \<Rightarrow> concat (map (load_repo_dir reports_dir) entries))"

subsection \<open>The aggregate\<close>

text \<open>
  The dictionary \<open>main\<close> dumps to the output file. \<open>now_iso\<close> is the
  \<^verbatim>\<open>isoformat\<close> of the time of the aggregation.
\<close>

record aggregated =
  metadata :: py_dict
  summary :: statistics
  repositories :: "py_dict list"

definition clean :: "py_dict \<Rightarrow> py_dict" where
  "clean report = filter (\<lambda>(k, v). \<not> startswith k ''_'') report"

definition aggregate :: "string \<Rightarrow> py_dict list \<Rightarrow> py_error + aggregated" where
  "aggregate now_iso reports =
     (if reports = []
      then Inr \<lparr>metadata = [(''aggregation_time'', JStr now_iso), (''total_repos'', JInt 0)],
                summary = [],
                repositories = []\<rparr>
      else
        (case aggregate_statistics reports of
           Inl e \<Rightarrow> Inl e
         | Inr stats \<Rightarrow>
             Inr \<lparr>metadata = [(''aggregation_time'', JStr now_iso),
                              (''total_repos'', JInt (int (length reports))),
                              (''successful_scans'', JInt (int (length reports)))],
                  summary = stats,
                  repositories = map clean reports\<rparr>))"

text \<open>\<open>main\<close> of \<^verbatim>\<open>aggregate_reports.py\<close>: load, then aggregate.\<close>

definition main_aggregate ::
  "string \<Rightarrow> string \<Rightarrow> dir_entry list option \<Rightarrow> py_error + aggregated" where
  "main_aggregate now_iso reports_dir listing =
     aggregate now_iso (load_repo_reports reports_dir listing)"

section \<open>Predicates the properties are stated with\<close>

text \<open>
  A world in which dispatching, and listing the runs, fails with \<^verbatim>\<open>GithubException\<close>
  when it fails: the exception the two handlers of \<^verbatim>\<open>trigger_scans.py\<close> catch.
\<close>

definition dispatch_errors_caught :: "world \<Rightarrow> bool" where
  "dispatch_errors_caught w =
     (\<forall>n rn wfile br x. dispatch_at w n rn wfile br \<noteq> Dispatch_raises_other x)"

definition listing_errors_caught :: "world \<Rightarrow> bool" where
  "listing_errors_caught w = (\<forall>n rn wfile x. runs_at w n rn wfile \<noteq> Runs_raises_other x)"

text \<open>
  A run a round of polling asks about (it has a run id and is not completed), the query
  the round makes for it, and a run the round counts as done with.
\<close>

definition to_poll :: "run \<Rightarrow> bool" where
  "to_poll r = (truthy_id (run_id r) \<and> \<not> completed r)"

definition query_of :: "run \<Rightarrow> event" where
  "query_of r = Remote_status (repo r) (case run_id r of None \<Rightarrow> 0 | Some rid \<Rightarrow> rid)"

definition settled :: "run \<Rightarrow> bool" where
  "settled r = (\<not> truthy_id (run_id r) \<or> completed r)"

text \<open>
  Whether one of the artifacts \<open>cs\<close> is downloaded, when they are fetched one after the
  other and \<open>n\<close> events came before the first fetch: each fetch is one event, so the
  next artifact is asked for at \<open>Suc n\<close>.
\<close>

fun some_downloaded :: "world \<Rightarrow> string \<Rightarrow> artifact list \<Rightarrow> nat \<Rightarrow> bool" where
  "some_downloaded w repo_name [] n = False"
| "some_downloaded w repo_name (a # cs) n =
     (download_at w n repo_name (art_id a) \<or> some_downloaded w repo_name cs (Suc n))"

text \<open>
  A record \<open>r'\<close> that polling made of \<open>r\<close> is marked completed for a reason: \<open>r\<close>
  was so already, or the remote answers \<open>completed\<close> for its run at some moment.
\<close>

definition marked_for_a_reason :: "world \<Rightarrow> run \<Rightarrow> run \<Rightarrow> bool" where
  "marked_for_a_reason w r r' =
     (repo r' = repo r \<and> run_id r' = run_id r \<and>
      (completed r' \<longrightarrow>
         completed r \<or>
         (\<exists>n rid c. run_id r = Some rid \<and>
                    status_at w n (repo r) rid = Run_state ''completed'' c)))"

text \<open>
  The reports \<^verbatim>\<open>aggregate_statistics\<close> runs through: the classification, when there
  is one, can be a key, and the summary, when there is one, is an object.
\<close>

definition is_object :: "json \<Rightarrow> bool" where
  "is_object j = (case j of JObj kvs \<Rightarrow> True | _ \<Rightarrow> False)"

definition is_hashable :: "json \<Rightarrow> bool" where
  "is_hashable j = (case j of JArr xs \<Rightarrow> False | JObj kvs \<Rightarrow> False | _ \<Rightarrow> True)"

definition well_shaped :: "py_dict \<Rightarrow> bool" where
  "well_shaped report =
     (is_hashable (dict_get report ''classification'' (JStr ''UNKNOWN'')) \<and>
      is_object (dict_get report ''summary'' (JObj [])))"

text \<open>
  One of the four flags of a report, as a truth value: that of the entry of the report's
  summary, false when the summary or the entry is missing.
\<close>

definition summary_of :: "py_dict \<Rightarrow> py_dict" where
  "summary_of report = (case dict_get report ''summary'' (JObj []) of JObj s \<Rightarrow> s | _ \<Rightarrow> [])"

definition flag :: "py_dict \<Rightarrow> string \<Rightarrow> bool" where
  "flag report name = truthy (dict_get (summary_of report) name (JBool False))"

definition how_many :: "(py_dict \<Rightarrow> bool) \<Rightarrow> py_dict list \<Rightarrow> nat" where
  "how_many P reports = length (filter P reports)"

text \<open>The bucket names of the two four-way tables, and what a counter gives them in all.\<close>

definition support_buckets :: "string list" where
  "support_buckets = [''both'', ''local_only'', ''hosted_only'', ''none'']"

definition usage_buckets :: "string list" where
  "usage_buckets =
     [''both_in_actions'', ''local_in_actions'', ''hosted_in_actions'', ''none_in_actions'']"

definition counted :: "counter \<Rightarrow> string list \<Rightarrow> nat" where
  "counted c buckets = sum_list (map (\<lambda>b. count_of c (Key_str b)) buckets)"

section \<open>A concrete world, for the examples\<close>

text \<open>
  A clock that advances by a second with every event. Dispatching raises
  \<^verbatim>\<open>GithubException\<close> for \<open>org/b\<close>, returns false for \<open>org/c\<close>. The status query
  answers \<open>in_progress\<close> for \<open>org/a\<close>, \<open>completed\<close> for \<open>org/e\<close> and raises
  \<^verbatim>\<open>GithubException\<close> for the others. Only the artifact with id 1 can be downloaded.
\<close>

definition demo_world :: world where
  "demo_world =
     \<lparr>now_at = (\<lambda>n. of_nat n),
      dispatch_at = (\<lambda>n rn wfile br.
         if rn = ''org/b'' then Dispatch_raises ''404''
         else if rn = ''org/c'' then Dispatch_returns False
         else Dispatch_returns True),
      runs_at = (\<lambda>n rn wfile. Runs_listed [\<lparr>wr_id = 41, created_at = 2\<rparr>]),
      status_at = (\<lambda>n rn rid.
         if rn = ''org/a'' then Run_state ''in_progress'' None
         else if rn = ''org/e'' then Run_state ''completed'' (Some ''success'')
         else Status_raises ''502''),
      artifacts_at = (\<lambda>n rn rid. Artifacts_listed
         (if rn = ''org/a'' then [\<lparr>art_name = ''nim-scan-report-a'', art_id = 1\<rparr>,
                                  \<lparr>art_name = ''logs'', art_id = 2\<rparr>]
          else if rn = ''org/b'' then [\<lparr>art_name = ''hosted-nim-report'', art_id = 3\<rparr>]
          else if rn = ''org/c'' then [\<lparr>art_name = ''nim-scan-report'', art_id = 4\<rparr>]
          else [\<lparr>art_name = ''nim-scan-report'', art_id = 5\<rparr>,
                \<lparr>art_name = ''docker-image-report'', art_id = 6\<rparr>])),
      download_at = (\<lambda>n rn aid. aid = 1)\<rparr>"

text \<open>The same world with a clock that still reads the start time at its second reading.\<close>

definition stalled_world :: world where
  "stalled_world = demo_world\<lparr>now_at := (\<lambda>n. if n < 2 then 0 else of_nat n)\<rparr>"

text \<open>
  A world whose network goes down: dispatching for \<open>org/b\<close> and every status query end
  in a connection error of the transport, which is no \<^verbatim>\<open>GithubException\<close>.
\<close>

definition offline_world :: world where
  "offline_world =
     demo_world\<lparr>dispatch_at := (\<lambda>n rn wfile br.
                    if rn = ''org/b'' then Dispatch_raises_other ''ConnectionError''
                    else Dispatch_returns True),
                 status_at := (\<lambda>n rn rid. Status_raises_other ''ConnectionError'')\<rparr>"

definition demo_repo :: "string \<Rightarrow> repo_config" where
  "demo_repo nm =
     \<lparr>cfg_name = nm, cfg_workflow_file = ''ci.yml'', cfg_branch = ''main'',
      cfg_exclude_dirs = [], cfg_enabled = True\<rparr>"

definition demo_run :: "string \<Rightarrow> int option \<Rightarrow> string option \<Rightarrow> bool \<Rightarrow> run" where
  "demo_run rn rid st done =
     \<lparr>repo = rn, workflow_file = ''ci.yml'', branch = ''main'', status = ''triggered'',
      run_id = rid, error = None, triggered_at = 0, run_status = st,
      run_conclusion = None, completed = done\<rparr>"

text \<open>Two reports: one that declares the local capability, one with no summary at all.\<close>

definition demo_reports :: "py_dict list" where
  "demo_reports =
     [[(''classification'', JStr ''LOCAL''),
       (''summary'', JObj [(''supports_local_nim'', JBool True),
                           (''supports_hosted_nim'', JBool False),
                           (''uses_local_nim_in_actions'', JBool True),
                           (''uses_hosted_nim_in_actions'', JBool False)])],
      [(''metadata'', JObj [(''repo_name'', JStr ''org/b'')])]]"

text \<open>
  A reports directory with one repository in it, which has no canonical report file but
  two files whose names hold \<open>report\<close>.
\<close>

definition demo_listing :: "dir_entry list" where
  "demo_listing =
     [\<lparr>entry_name = ''org-a'', is_dir = True,
       entry_files =
         [(''docker-image-report.json'', Parsed (JObj [(''classification'', JStr ''DOCKER'')])),
          (''Hosted-NIM-Report.json'', Parsed (JObj [])),
          (''notes.txt'', Load_raises)]\<rparr>]"

section \<open>Properties of trigger\_scans.py\<close>

lemma trigger_workflow_returned:
  assumes "trigger_workflow w n wfile br d tr = (Inr res, tr')"
  shows "repo res = n"
    and "tr' = tr @ Clock_read # (if d then [] else [Remote_dispatch n wfile br])"
  using assms
  by (auto simp: trigger_workflow_def Let_def split: dispatch_outcome.splits if_splits)

lemma trigger_workflow_returns:
  assumes "d \<or> dispatch_errors_caught w"
  shows "\<exists>res tr'. trigger_workflow w n wfile br d tr = (Inr res, tr')"
  using assms
  by (auto simp: trigger_workflow_def dispatch_errors_caught_def Let_def
           split: dispatch_outcome.splits)

text \<open>
  Where dispatching fails with no other exception than the one that is caught, the loop
  runs to its end.
\<close>

lemma trigger_all_returns:
  assumes "d \<or> dispatch_errors_caught w"
  shows "\<exists>results tr'. trigger_all w rcs d tr = (Inr results, tr')"
proof (induction rcs arbitrary: tr)
  case Nil
  show ?case by simp
next
  case (Cons rc rcs)
  obtain res tr1 where a:
    "trigger_workflow w (cfg_name rc) (cfg_workflow_file rc) (cfg_branch rc) d tr = (Inr res, tr1)"
    using trigger_workflow_returns [OF assms] by blast
  obtain results tr2 where b: "trigger_all w rcs d tr1 = (Inr results, tr2)"
    using Cons.IH by blast
  show ?case
    using a b by simp
qed

text \<open>One result for every repository, in order, and one remote step each unless it is a dry run.\<close>

lemma trigger_all_returned:
  assumes "trigger_all w rcs d tr = (Inr results, tr')"
  shows "map repo results = map cfg_name rcs \<and>
         filter is_dispatch tr' =
           filter is_dispatch tr @
           (if d then []
            else map (\<lambda>rc. Remote_dispatch (cfg_name rc) (cfg_workflow_file rc) (cfg_branch rc)) rcs)"
  using assms
proof (induction rcs arbitrary: tr results)
  case Nil
  then show ?case by simp
next
  case (Cons rc rcs)
  from Cons.prems obtain res tr1 rest where
    a: "trigger_workflow w (cfg_name rc) (cfg_workflow_file rc) (cfg_branch rc) d tr = (Inr res, tr1)"
    and b: "trigger_all w rcs d tr1 = (Inr rest, tr')"
    and c: "results = res # rest"
    by (auto split: prod.splits sum.splits)
  show ?case
    using Cons.IH [OF b] trigger_workflow_returned [OF a] c by simp
qed

lemma get_latest_run_id_returned:
  assumes "get_latest_run_id w n wfile tt tr = (res, tr')"
  shows "tr' = tr @ [Remote_list_runs n wfile]"
  using assms by (auto simp: get_latest_run_id_def split: runs_outcome.splits)

lemma get_latest_run_id_returns:
  assumes "listing_errors_caught w"
  shows "\<exists>rid tr'. get_latest_run_id w n wfile tt tr = (Inr rid, tr')"
  using assms
  by (auto simp: get_latest_run_id_def listing_errors_caught_def split: runs_outcome.splits)

lemma fetch_run_ids_returns:
  assumes "listing_errors_caught w"
  shows "\<exists>rs' tr'. fetch_run_ids w tt rs tr = (Inr rs', tr')"
proof (induction rs arbitrary: tr)
  case Nil
  show ?case by simp
next
  case (Cons r rs)
  obtain rid tr1 where a:
    "get_latest_run_id w (repo r) (workflow_file r) tt tr = (Inr rid, tr1)"
    using get_latest_run_id_returns [OF assms] by blast
  obtain rs1 tr2 where b: "fetch_run_ids w tt rs tr1 = (Inr rs1, tr2)"
    using Cons.IH by blast
  obtain rs2 tr3 where c: "fetch_run_ids w tt rs tr = (Inr rs2, tr3)"
    using Cons.IH by blast
  show ?case
    using a b c by simp
qed

text \<open>Looking the run ids up keeps every record in its place and dispatches nothing.\<close>

lemma fetch_run_ids_returned:
  assumes "fetch_run_ids w tt rs tr = (Inr rs', tr')"
  shows "map repo rs' = map repo rs \<and> map status rs' = map status rs \<and>
         filter is_dispatch tr' = filter is_dispatch tr"
  using assms
proof (induction rs arbitrary: tr rs')
  case Nil
  then show ?case by simp
next
  case (Cons r rs)
  show ?case
  proof (cases "status r = ''triggered''")
    case True
    with Cons.prems obtain rid tr1 rest where
      a: "get_latest_run_id w (repo r) (workflow_file r) tt tr = (Inr rid, tr1)"
      and b: "fetch_run_ids w tt rs tr1 = (Inr rest, tr')"
      and c: "rs' = (if truthy_id rid then r\<lparr>run_id := rid\<rparr> else r) # rest"
      by (auto split: prod.splits sum.splits)
    show ?thesis
      using Cons.IH [OF b] get_latest_run_id_returned [OF a] c by simp
  next
    case False
    with Cons.prems obtain rest where
      b: "fetch_run_ids w tt rs tr = (Inr rest, tr')" and c: "rs' = r # rest"
      by (auto split: prod.splits sum.splits)
    show ?thesis
      using Cons.IH [OF b] c by simp
  qed
qed

text \<open>
  C1, as amended. For every non-empty list of N targeted repositories, in a dry run or
  in a world where dispatching and listing the runs raise no other exception than
  \<^verbatim>\<open>GithubException\<close>: whatever each dispatch does (returns true, returns false, raises
  \<^verbatim>\<open>GithubException\<close>), \<open>main\<close> writes a trigger output whose \<open>runs\<close> has exactly N
  entries, one per repository in the order of the input, and \<open>total_repos\<close> is N; when it
  is not a dry run, the trace holds one dispatch for every repository, in order, so no such
  failure keeps the loop from the repositories after it.
\<close>

theorem dispatch_batch_one_run_per_repo:
  assumes "repos \<noteq> []"
    and "is_dry \<or> (dispatch_errors_caught w \<and> listing_errors_caught w)"
  shows "\<exists>out tr. main_trigger w repos is_dry = (Wrote out, tr) \<and>
           length (runs out) = length repos \<and>
           map repo (runs out) = map cfg_name repos \<and>
           total_repos out = length repos \<and>
           (\<not> is_dry \<longrightarrow>
              filter is_dispatch tr =
                map (\<lambda>rc. Remote_dispatch (cfg_name rc) (cfg_workflow_file rc) (cfg_branch rc))
                    repos)"
proof -
  have "is_dry \<or> dispatch_errors_caught w"
    using assms(2) by blast
  then obtain results tr1 where a: "trigger_all w repos is_dry [Clock_read] = (Inr results, tr1)"
    using trigger_all_returns by blast
  have names: "map repo results = map cfg_name repos"
    using trigger_all_returned [OF a] by simp
  show ?thesis
  proof (cases is_dry)
    case True
    have "length results = length repos"
      using names by (metis length_map)
    then show ?thesis
      using True a names assms(1) by (simp add: main_trigger_def)
  next
    case False
    then have "listing_errors_caught w"
      using assms(2) by blast
    then obtain results' tr2 where b:
      "fetch_run_ids w (now_at w 0) results (tr1 @ [Sleep 5]) = (Inr results', tr2)"
      using fetch_run_ids_returns by blast
    have names': "map repo results' = map cfg_name repos"
      using fetch_run_ids_returned [OF b] names by simp
    then have len: "length results' = length repos"
      by (metis length_map)
    have "filter is_dispatch tr1 =
            map (\<lambda>rc. Remote_dispatch (cfg_name rc) (cfg_workflow_file rc) (cfg_branch rc)) repos"
      using trigger_all_returned [OF a] False by simp
    then have "filter is_dispatch tr2 =
            map (\<lambda>rc. Remote_dispatch (cfg_name rc) (cfg_workflow_file rc) (cfg_branch rc)) repos"
      using fetch_run_ids_returned [OF b] by simp
    then show ?thesis
      using False a b names' len assms(1) by (simp add: main_trigger_def)
  qed
qed

lemma demo_world_dispatch_caught: "dispatch_errors_caught demo_world"
  by (simp add: dispatch_errors_caught_def demo_world_def)

lemma demo_world_listing_caught: "listing_errors_caught demo_world"
  by (simp add: listing_errors_caught_def demo_world_def)

text \<open>
  Three repositories, of which the second raises \<^verbatim>\<open>GithubException\<close> and the third
  returns false: three runs, and all three were dispatched.
\<close>

theorem dispatch_batch_one_run_per_repo_witness:
  "dispatch_errors_caught demo_world \<and> listing_errors_caught demo_world \<and>
   (\<exists>out tr.
     main_trigger demo_world [demo_repo ''org/a'', demo_repo ''org/b'', demo_repo ''org/c''] False =
       (Wrote out, tr) \<and>
     length (runs out) = 3 \<and>
     map repo (runs out) = [''org/a'', ''org/b'', ''org/c''] \<and>
     total_repos out = 3 \<and>
     filter is_dispatch tr =
       [Remote_dispatch ''org/a'' ''ci.yml'' ''main'',
        Remote_dispatch ''org/b'' ''ci.yml'' ''main'',
        Remote_dispatch ''org/c'' ''ci.yml'' ''main''])"
proof -
  have ne: "[demo_repo ''org/a'', demo_repo ''org/b'', demo_repo ''org/c''] \<noteq> []"
    by simp
  have ok: "False \<or> (dispatch_errors_caught demo_world \<and> listing_errors_caught demo_world)"
    using demo_world_dispatch_caught demo_world_listing_caught by simp
  have "\<exists>out tr.
     main_trigger demo_world [demo_repo ''org/a'', demo_repo ''org/b'', demo_repo ''org/c''] False =
       (Wrote out, tr) \<and>
     length (runs out) = 3 \<and>
     map repo (runs out) = [''org/a'', ''org/b'', ''org/c''] \<and>
     total_repos out = 3 \<and>
     filter is_dispatch tr =
       [Remote_dispatch ''org/a'' ''ci.yml'' ''main'',
        Remote_dispatch ''org/b'' ''ci.yml'' ''main'',
        Remote_dispatch ''org/c'' ''ci.yml'' ''main'']"
    using dispatch_batch_one_run_per_repo [OF ne ok]
    by (simp add: demo_repo_def numeral_3_eq_3)
  then show ?thesis
    using demo_world_dispatch_caught demo_world_listing_caught by blast
qed

text \<open>
  What the three dispatches of that batch come to: one run per repository all the same,
  each with the status of its own dispatch.
\<close>

lemma dispatch_batch_statuses:
  "map status (runs (case fst (main_trigger demo_world
                                 [demo_repo ''org/a'', demo_repo ''org/b'', demo_repo ''org/c'']
                                 False) of
                       Wrote out \<Rightarrow> out)) =
     [''triggered'', ''error'', ''failed'']"
  by (simp add: main_trigger_def demo_repo_def demo_world_def trigger_workflow_def
        get_latest_run_id_def truthy_id_def)

text \<open>
  C1 as it is stated fails twice. For the empty list \<open>main\<close> leaves through
  \<^verbatim>\<open>sys.exit(0)\<close> and writes no trigger output, neither with zero runs nor any other.
  And a dispatch that raises something else than \<^verbatim>\<open>GithubException\<close> ends the loop:
  of three repositories the third is never dispatched, and no output is written.
\<close>

theorem batch_without_trigger_output:
  "main_trigger demo_world [] False = (Exited 0, []) \<and>
   main_trigger demo_world [] True = (Exited 0, []) \<and>
   main_trigger offline_world [demo_repo ''org/a'', demo_repo ''org/b'', demo_repo ''org/c''] False =
     (Raised ''ConnectionError'',
      [Clock_read, Clock_read, Remote_dispatch ''org/a'' ''ci.yml'' ''main'',
       Clock_read, Remote_dispatch ''org/b'' ''ci.yml'' ''main''])"
  by (simp add: main_trigger_def offline_world_def demo_world_def demo_repo_def
        trigger_workflow_def)

section \<open>Properties of the polling in collect\_reports.py\<close>

subsection \<open>One round\<close>

lemma poll_run_skips_completed:
  "completed r \<Longrightarrow> poll_run w r rid (ac, cc) tr = (Inr (r, ac, Suc cc), tr)"
  by (simp add: poll_run_def)

lemma poll_run_returned:
  assumes "poll_run w r rid acc tr = (Inr (r', acc'), tr')"
  shows "tr' = tr @ (if completed r then [] else [Remote_status (repo r) rid])"
    and "fst acc' = (fst acc \<and> completed r')"
    and "repo r' = repo r" and "run_id r' = run_id r"
  using assms
  by (cases acc;
      auto simp: poll_run_def check_run_status_def Let_def
           split: status_outcome.splits if_splits)+


text \<open>
  A round that comes to its end has asked once about every run that has a run id and was
  not completed, in order, and about no other; and it says all completed exactly when no
  run with a run id is left incomplete.
\<close>

lemma poll_round_returned:
  assumes "poll_round w rs acc tr = (Inr (rs', acc'), tr')"
  shows "tr' = tr @ map query_of (filter to_poll rs) \<and>
         fst acc' = (fst acc \<and> list_all settled rs') \<and>
         map repo rs' = map repo rs \<and> map run_id rs' = map run_id rs"
  using assms
proof (induction rs arbitrary: acc tr rs')
  case Nil
  then show ?case by simp
next
  case (Cons r rs)
  show ?case
  proof (cases "truthy_id (run_id r)")
    case False
    with Cons.prems obtain rest where
      b: "poll_round w rs acc tr = (Inr (rest, acc'), tr')" and c: "rs' = r # rest"
      by (auto split: prod.splits sum.splits)
    show ?thesis
      using Cons.IH [OF b] c False by (simp add: to_poll_def settled_def)
  next
    case True
    then obtain rid where rid: "run_id r = Some rid"
      by (auto simp: truthy_id_def split: option.splits)
    with True Cons.prems obtain r' acc1 tr1 rest where
      a: "poll_run w r rid acc tr = (Inr (r', acc1), tr1)"
      and b: "poll_round w rs acc1 tr1 = (Inr (rest, acc'), tr')"
      and c: "rs' = r' # rest"
      by (auto split: prod.splits sum.splits)
    have t: "truthy_id (run_id r')"
      using poll_run_returned(4) [OF a] True by simp
    show ?thesis
      using Cons.IH [OF b] poll_run_returned [OF a] c True rid t
      by (auto simp: to_poll_def settled_def query_of_def)
  qed
qed






subsection \<open>No record is marked completed without the remote saying so\<close>

lemma marked_refl: "marked_for_a_reason w r r"
  by (simp add: marked_for_a_reason_def)

lemma marked_trans:
  "marked_for_a_reason w a b \<Longrightarrow> marked_for_a_reason w b c \<Longrightarrow> marked_for_a_reason w a c"
  by (auto simp: marked_for_a_reason_def)

lemma list_all2_marked_trans:
  "list_all2 (marked_for_a_reason w) xs ys \<Longrightarrow> list_all2 (marked_for_a_reason w) ys zs \<Longrightarrow>
   list_all2 (marked_for_a_reason w) xs zs"
  using marked_trans
    list_all2_trans [of "marked_for_a_reason w" "marked_for_a_reason w" "marked_for_a_reason w"
                        xs ys zs]
  by blast

lemma poll_run_marked:
  assumes "run_id r = Some rid" and "poll_run w r rid acc tr = (Inr (r', acc'), tr')"
  shows "marked_for_a_reason w r r'"
  using assms
  by (cases acc)
     (auto simp: poll_run_def check_run_status_def marked_for_a_reason_def Let_def
           split: status_outcome.splits if_splits)

lemma poll_round_marked:
  assumes "poll_round w rs acc tr = (Inr (rs', acc'), tr')"
  shows "list_all2 (marked_for_a_reason w) rs rs'"
  using assms
proof (induction rs arbitrary: acc tr rs')
  case Nil
  then show ?case by simp
next
  case (Cons r rs)
  show ?case
  proof (cases "truthy_id (run_id r)")
    case False
    with Cons.prems obtain rest where
      b: "poll_round w rs acc tr = (Inr (rest, acc'), tr')" and c: "rs' = r # rest"
      by (auto split: prod.splits sum.splits)
    show ?thesis
      using Cons.IH [OF b] c by (simp add: marked_refl)
  next
    case True
    then obtain rid where rid: "run_id r = Some rid"
      by (auto simp: truthy_id_def split: option.splits)
    with True Cons.prems obtain r' acc1 tr1 rest where
      a: "poll_run w r rid acc tr = (Inr (r', acc1), tr1)"
      and b: "poll_round w rs acc1 tr1 = (Inr (rest, acc'), tr')"
      and c: "rs' = r' # rest"
      by (auto split: prod.splits sum.splits)
    show ?thesis
      using Cons.IH [OF b] poll_run_marked [OF rid a] c by simp
  qed
qed

text \<open>
  The loop is a partial function, so the invariant is proved for the results it has: by
  the induction rule of its definition, one round at a time.
\<close>

lemma wait_loop_marked:
  assumes ret: "wait_loop w st tos pis rs tr = Some res"
  shows "\<forall>rs' tr'. res = (Inr rs', tr') \<longrightarrow> list_all2 (marked_for_a_reason w) rs rs'"
proof (rule wait_loop.raw_induct
         [where P = "\<lambda>w st tos pis rs tr res.
                       \<forall>rs' tr'. res = (Inr rs', tr') \<longrightarrow>
                                list_all2 (marked_for_a_reason w) rs rs'",
          OF _ ret])
  fix wl w st tos pis rs tr res
  assume IH: "\<And>w st tos pis rs tr res.
                wl w st tos pis rs tr = Some res \<Longrightarrow>
                \<forall>rs' tr'. res = (Inr rs', tr') \<longrightarrow> list_all2 (marked_for_a_reason w) rs rs'"
    and body: "(if now_at w (length tr) - st > of_int tos
                then Some (Inr rs, tr @ [Clock_read])
                else (case poll_round w rs (True, 0) (tr @ [Clock_read]) of
                        (Inl x, tr1) \<Rightarrow> Some (Inl x, tr1)
                      | (Inr (rs', all_completed, completed_count), tr1) \<Rightarrow>
                          if all_completed then Some (Inr rs', tr1)
                          else if pis < 0 then Some (Inl ''ValueError'', tr1)
                          else wl w st tos pis rs' (tr1 @ [Sleep pis]))) = Some res"
  show "\<forall>rs' tr'. res = (Inr rs', tr') \<longrightarrow> list_all2 (marked_for_a_reason w) rs rs'"
  proof (cases "now_at w (length tr) - st > of_int tos")
    case True
    then have "res = (Inr rs, tr @ [Clock_read])" using body by simp
    then show ?thesis
      by (simp add: list_all2_refl marked_refl)
  next
    case False
    show ?thesis
    proof (cases "poll_round w rs (True, 0) (tr @ [Clock_read])")
      case (Pair out tr1)
      show ?thesis
      proof (cases out)
        case (Inl x)
        then have "res = (Inl x, tr1)" using body False Pair by simp
        then show ?thesis by simp
      next
        case (Inr triple)
        obtain rs1 ac cc where triple: "triple = (rs1, ac, cc)"
          by (cases triple)
        have pr: "poll_round w rs (True, 0) (tr @ [Clock_read]) = (Inr (rs1, ac, cc), tr1)"
          using Pair Inr triple by simp
        have h: "list_all2 (marked_for_a_reason w) rs rs1"
          using poll_round_marked [OF pr] .
        show ?thesis
        proof (cases ac)
          case True
          then have "res = (Inr rs1, tr1)" using body False pr by simp
          then show ?thesis using h by simp
        next
          case ac: False
          show ?thesis
          proof (cases "pis < 0")
            case True
            then have "res = (Inl ''ValueError'', tr1)" using body False pr ac by simp
            then show ?thesis by simp
          next
            case nonneg: False
            then have "wl w st tos pis rs1 (tr1 @ [Sleep pis]) = Some res"
              using body False pr ac by simp
            then have "\<forall>rs' tr'. res = (Inr rs', tr') \<longrightarrow>
                         list_all2 (marked_for_a_reason w) rs1 rs'"
              using IH by blast
            then show ?thesis
              using h list_all2_marked_trans by blast
          qed
        qed
      qed
    qed
  qed
qed

lemma wait_for_completion_marked:
  assumes "wait_for_completion w rs tm pis tr = Some (Inr rs', tr')"
  shows "list_all2 (marked_for_a_reason w) rs rs'"
proof (cases "filter (\<lambda>r. truthy_id (run_id r)) rs = []")
  case True
  then have "rs' = rs"
    using assms by (simp add: wait_for_completion_def)
  then show ?thesis
    by (simp add: list_all2_refl marked_refl)
next
  case False
  then have "wait_loop w (now_at w (length tr)) (tm * 60) pis rs (tr @ [Clock_read]) =
               Some (Inr rs', tr')"
    using assms by (simp add: wait_for_completion_def)
  then show ?thesis
    using wait_loop_marked by blast
qed

subsection \<open>A timeout of zero\<close>

lemma zero_timeout_clock_advanced:
  assumes "now_at w (length tr) < now_at w (Suc (length tr))"
  shows "\<exists>tr'. wait_for_completion w rs 0 poll_interval_seconds tr = Some (Inr rs, tr') \<and>
           filter is_status tr' = filter is_status tr \<and>
           filter is_sleep tr' = filter is_sleep tr"
  using assms by (simp add: wait_for_completion_def wait_loop.simps)

text \<open>
  The clock still reads the start time at the first check of the deadline, and there is a
  run to wait for: one round runs. It asks once about every run with a run id that is not
  completed. If it leaves none incomplete the loop returns without a sleep; otherwise the
  loop sleeps, and returns at the next check of the deadline if the clock has advanced by
  then.
\<close>

lemma zero_timeout_clock_stalled:
  assumes "\<not> now_at w (length tr) < now_at w (Suc (length tr))"
    and "filter (\<lambda>r. truthy_id (run_id r)) rs \<noteq> []"
    and "0 \<le> poll_interval_seconds"
    and "poll_round w rs (True, 0) (tr @ [Clock_read, Clock_read]) = (Inr (rs', ac, cc), tr1)"
  shows "tr1 = tr @ [Clock_read, Clock_read] @ map query_of (filter to_poll rs)"
    and "ac = list_all settled rs'"
    and "wait_for_completion w rs 0 poll_interval_seconds tr =
           (if ac then Some (Inr rs', tr1)
            else wait_loop w (now_at w (length tr)) 0 poll_interval_seconds rs'
                   (tr1 @ [Sleep poll_interval_seconds]))"
    and "\<not> ac \<Longrightarrow> now_at w (length tr) < now_at w (Suc (length tr1)) \<Longrightarrow>
           wait_for_completion w rs 0 poll_interval_seconds tr =
             Some (Inr rs', tr1 @ [Sleep poll_interval_seconds, Clock_read])"
proof -
  show "tr1 = tr @ [Clock_read, Clock_read] @ map query_of (filter to_poll rs)"
    using poll_round_returned [OF assms(4)] by simp
  show "ac = list_all settled rs'"
    using poll_round_returned [OF assms(4)] by simp
  show step: "wait_for_completion w rs 0 poll_interval_seconds tr =
           (if ac then Some (Inr rs', tr1)
            else wait_loop w (now_at w (length tr)) 0 poll_interval_seconds rs'
                   (tr1 @ [Sleep poll_interval_seconds]))"
    using assms
          wait_loop.simps [of w "now_at w (length tr)" 0 poll_interval_seconds rs
                              "tr @ [Clock_read]"]
    by (simp add: wait_for_completion_def)
  show "wait_for_completion w rs 0 poll_interval_seconds tr =
             Some (Inr rs', tr1 @ [Sleep poll_interval_seconds, Clock_read])"
    if "\<not> ac" and "now_at w (length tr) < now_at w (Suc (length tr1))"
    using that step
          wait_loop.simps [of w "now_at w (length tr)" 0 poll_interval_seconds rs'
                              "tr1 @ [Sleep poll_interval_seconds]"]
    by simp
qed

text \<open>
  C3, as amended. With a zero timeout: when the clock has advanced between the reading
  of the start time and the first check of the deadline, the poll loop returns the records
  as they were, having made no status query and no sleep. Whenever it returns records,
  each is the one it was given (same repository, same run id), marked completed only if
  it was so before or the remote answers \<open>completed\<close> for its run. And when the clock
  still reads the start time at the first check, with a run to wait for and a round that
  raises nothing uncaught: the round asks once about every run with a run id that is not
  completed; the loop returns without a sleep exactly if the round leaves no such run
  incomplete; otherwise it sleeps one poll interval, and returns after that one sleep if
  the clock has advanced by the next check of the deadline.
\<close>

theorem zero_timeout_returns_at_once:
  "(now_at w (length tr) < now_at w (Suc (length tr)) \<longrightarrow>
      (\<exists>tr'. wait_for_completion w rs 0 poll_interval_seconds tr = Some (Inr rs, tr') \<and>
             filter is_status tr' = filter is_status tr \<and>
             filter is_sleep tr' = filter is_sleep tr)) \<and>
   (wait_for_completion w rs 0 poll_interval_seconds tr = Some (Inr rs', tr') \<longrightarrow>
      list_all2 (marked_for_a_reason w) rs rs') \<and>
   (\<not> now_at w (length tr) < now_at w (Suc (length tr)) \<and>
    filter (\<lambda>r. truthy_id (run_id r)) rs \<noteq> [] \<and>
    0 \<le> poll_interval_seconds \<and>
    poll_round w rs (True, 0) (tr @ [Clock_read, Clock_read]) = (Inr (rs1, ac, cc), tr1) \<longrightarrow>
      tr1 = tr @ [Clock_read, Clock_read] @ map query_of (filter to_poll rs) \<and>
      ac = list_all settled rs1 \<and>
      wait_for_completion w rs 0 poll_interval_seconds tr =
        (if ac then Some (Inr rs1, tr1)
         else wait_loop w (now_at w (length tr)) 0 poll_interval_seconds rs1
                (tr1 @ [Sleep poll_interval_seconds])) \<and>
      (\<not> ac \<and> now_at w (length tr) < now_at w (Suc (length tr1)) \<longrightarrow>
         wait_for_completion w rs 0 poll_interval_seconds tr =
           Some (Inr rs1, tr1 @ [Sleep poll_interval_seconds, Clock_read])))"
  using zero_timeout_clock_advanced [of w tr rs poll_interval_seconds]
        wait_for_completion_marked [of w rs 0 poll_interval_seconds tr rs' tr']
        zero_timeout_clock_stalled [of w tr rs poll_interval_seconds rs1 ac cc tr1]
  by blast

text \<open>
  A pending run and a clock that ticks: back at once, nothing asked, nothing slept. Two
  pending runs and a clock that stands still at first: one round, in which one of them
  completes; one sleep; and the run that completed is marked for the remote's answer.
\<close>

theorem zero_timeout_returns_at_once_witness:
  "now_at demo_world 0 < now_at demo_world 1 \<and>
   wait_for_completion demo_world [demo_run ''org/a'' (Some 41) None False] 0 30 [] =
     Some (Inr [demo_run ''org/a'' (Some 41) None False], [Clock_read, Clock_read]) \<and>
   \<not> now_at stalled_world 0 < now_at stalled_world 1 \<and>
   wait_for_completion stalled_world
     [demo_run ''org/a'' (Some 41) None False, demo_run ''org/e'' (Some 9) None False] 0 30 [] =
     Some (Inr [demo_run ''org/a'' (Some 41) (Some ''in_progress'') False,
                (demo_run ''org/e'' (Some 9) (Some ''completed'') True)
                  \<lparr>run_conclusion := Some ''success''\<rparr>],
           [Clock_read, Clock_read, Remote_status ''org/a'' 41, Remote_status ''org/e'' 9,
            Sleep 30, Clock_read]) \<and>
   list_all2 (marked_for_a_reason stalled_world)
     [demo_run ''org/a'' (Some 41) None False, demo_run ''org/e'' (Some 9) None False]
     [demo_run ''org/a'' (Some 41) (Some ''in_progress'') False,
      (demo_run ''org/e'' (Some 9) (Some ''completed'') True)\<lparr>run_conclusion := Some ''success''\<rparr>]"
proof -
  let ?a = "demo_run ''org/a'' (Some 41) None False"
  let ?a' = "demo_run ''org/a'' (Some 41) (Some ''in_progress'') False"
  let ?e = "demo_run ''org/e'' (Some 9) None False"
  let ?e' = "(demo_run ''org/e'' (Some 9) (Some ''completed'') True)
               \<lparr>run_conclusion := Some ''success''\<rparr>"
  let ?tr1 = "[Clock_read, Clock_read, Remote_status ''org/a'' 41, Remote_status ''org/e'' 9]"
  have adv: "now_at demo_world (length ([]::event list)) <
             now_at demo_world (Suc (length ([]::event list)))"
    by (simp add: demo_world_def)
  have first: "wait_for_completion demo_world [?a] 0 30 [] = Some (Inr [?a], [Clock_read, Clock_read])"
    using zero_timeout_returns_at_once [of demo_world "[]" "[?a]" 30] adv
    by (auto simp: wait_for_completion_def wait_loop.simps demo_run_def truthy_id_def)
  have stall: "\<not> now_at stalled_world (length ([]::event list)) <
                 now_at stalled_world (Suc (length ([]::event list)))"
    by (simp add: stalled_world_def)
  have pending: "filter (\<lambda>r. truthy_id (run_id r)) [?a, ?e] \<noteq> []"
    by (simp add: demo_run_def truthy_id_def)
  have round: "poll_round stalled_world [?a, ?e] (True, 0) ([] @ [Clock_read, Clock_read]) =
                 (Inr ([?a', ?e'], False, 1), ?tr1)"
    by (simp add: stalled_world_def demo_world_def demo_run_def truthy_id_def poll_run_def
          check_run_status_def)
  have later: "now_at stalled_world (length ([]::event list)) <
               now_at stalled_world (Suc (length ?tr1))"
    by (simp add: stalled_world_def)
  note t = zero_timeout_returns_at_once
             [of stalled_world "[]" "[?a, ?e]" 30 "[?a', ?e']"
                 "?tr1 @ [Sleep 30, Clock_read]" "[?a', ?e']" False 1 ?tr1]
  have nonneg: "(0::int) \<le> 30"
    by simp
  have second: "wait_for_completion stalled_world [?a, ?e] 0 30 [] =
                  Some (Inr [?a', ?e'], ?tr1 @ [Sleep 30, Clock_read])"
    using t stall pending round later nonneg by blast
  have third: "list_all2 (marked_for_a_reason stalled_world) [?a, ?e] [?a', ?e']"
    using t second by blast
  have adv': "now_at demo_world 0 < now_at demo_world 1"
    using adv by simp
  have stall': "\<not> now_at stalled_world 0 < now_at stalled_world 1"
    using stall by simp
  show ?thesis
    using adv' first stall' second third by simp
qed

text \<open>
  C3 as it is stated fails when the clock still reads the start time at the first check of
  the deadline: the elapsed time is then not above zero, a round of queries runs, and the
  run that is still in progress makes the loop sleep its 30 seconds before it returns.
\<close>

theorem zero_timeout_sleeps_on_stalled_clock:
  "wait_for_completion stalled_world [demo_run ''org/a'' (Some 41) None False] 0 30 [] =
     Some (Inr [demo_run ''org/a'' (Some 41) (Some ''in_progress'') False],
           [Clock_read, Clock_read, Remote_status ''org/a'' 41, Sleep 30, Clock_read])"
  by (simp add: wait_for_completion_def wait_loop.simps stalled_world_def demo_world_def
        demo_run_def truthy_id_def poll_run_def check_run_status_def)

section \<open>Properties of the collecting in collect\_reports.py\<close>

text \<open>
  C6, as amended. A record whose precondition fails is skipped with no remote call: the
  trace is returned as it was. The status is \<open>skipped\<close> in both cases, and the reason
  tells them apart: \<open>no_run_id\<close> for a run id that is absent (or zero),
  \<open>not_completed\<close> for a run that has an id and is not completed. The result is an
  ordinary result of the function: no error is raised and none is recorded in it.
\<close>

theorem collect_skips_without_remote_call:
  assumes "\<not> (truthy_id (run_id r) \<and> completed r)"
  shows "collect_run w output_dir r tr =
           (\<lparr>res_repo = repo r, res_status = ''skipped'',
             res_reason = Some (if truthy_id (run_id r) then ''not_completed'' else ''no_run_id''),
             res_output_dir = None, res_error = None\<rparr>,
            tr)"
  using assms by (auto simp: collect_run_def skipped_def truthy_id_def split: option.splits)

text \<open>A run with no id, and a run with an id that is still in progress.\<close>

theorem collect_skips_without_remote_call_witness:
  "collect_run demo_world ''reports'' (demo_run ''org/a'' None None False) [] =
     (\<lparr>res_repo = ''org/a'', res_status = ''skipped'', res_reason = Some ''no_run_id'',
       res_output_dir = None, res_error = None\<rparr>, []) \<and>
   collect_run demo_world ''reports'' (demo_run ''org/a'' (Some 41) (Some ''in_progress'') False) [] =
     (\<lparr>res_repo = ''org/a'', res_status = ''skipped'', res_reason = Some ''not_completed'',
       res_output_dir = None, res_error = None\<rparr>, [])"
  using collect_skips_without_remote_call
          [of "demo_run ''org/a'' None None False" demo_world "''reports''" "[]"]
        collect_skips_without_remote_call
          [of "demo_run ''org/a'' (Some 41) (Some ''in_progress'') False" demo_world "''reports''" "[]"]
  by (simp add: demo_run_def truthy_id_def)

text \<open>
  C6 as it is stated fails in the name of the status: for the run with no id it is not
  \<open>skipped_no_run_id\<close>, and for the run that is not completed it is not
  \<open>skipped_not_completed\<close>. Both have the one status \<open>skipped\<close>.
\<close>

theorem skip_status_is_plain_skipped:
  "res_status (fst (collect_run demo_world ''reports'' (demo_run ''org/a'' None None False) [])) =
     ''skipped'' \<and>
   res_status (fst (collect_run demo_world ''reports'' (demo_run ''org/a'' None None False) [])) \<noteq>
     ''skipped_no_run_id'' \<and>
   res_status (fst (collect_run demo_world ''reports''
                      (demo_run ''org/a'' (Some 41) (Some ''in_progress'') False) [])) =
     ''skipped'' \<and>
   res_status (fst (collect_run demo_world ''reports''
                      (demo_run ''org/a'' (Some 41) (Some ''in_progress'') False) [])) \<noteq>
     ''skipped_not_completed''"
  by (simp add: collect_run_def skipped_def demo_run_def truthy_id_def)

subsection \<open>The two loops over the artifacts\<close>

text \<open>Each loop fetches every artifact that matches, whatever the fetches before it did.\<close>

lemma download_canonical_trace:
  "snd (download_canonical w rn arts found tr) =
     tr @ map (\<lambda>a. Remote_download rn (art_id a)) (filter is_canonical arts)"
  by (induction arts arbitrary: found tr) (simp_all add: download_artifact_def)

lemma download_fallback_trace:
  "snd (download_fallback w rn arts found tr) =
     tr @ map (\<lambda>a. Remote_download rn (art_id a)) (filter is_fallback arts)"
  by (induction arts arbitrary: found tr) (simp_all add: download_artifact_def)

lemma download_canonical_found:
  "fst (download_canonical w rn arts found tr) =
     (found \<or> some_downloaded w rn (filter is_canonical arts) (length tr))"
  by (induction arts arbitrary: found tr) (auto simp: download_artifact_def)

lemma download_fallback_found:
  "fst (download_fallback w rn arts found tr) = (found \<or> (\<exists>a \<in> set arts. is_fallback a))"
  by (induction arts arbitrary: found tr) (auto simp: download_artifact_def)

text \<open>\<open>some_downloaded\<close> by position: the k-th of the artifacts is fetched k events later.\<close>

lemma some_downloaded_nth:
  "some_downloaded w rn cs n = (\<exists>k < length cs. download_at w (n + k) rn (art_id (cs ! k)))"
proof (induction cs arbitrary: n)
  case Nil
  show ?case by simp
next
  case (Cons a cs)
  have "(\<exists>k < Suc (length cs). download_at w (n + k) rn (art_id ((a # cs) ! k))) =
        (download_at w n rn (art_id a) \<or>
         (\<exists>k < length cs. download_at w (n + Suc k) rn (art_id ((a # cs) ! Suc k))))"
    by (simp add: Ex_less_Suc2)
  then show ?case
    using Cons.IH [of "Suc n"] by simp
qed

lemma collect_run_status:
  assumes "completed r" and "run_id r = Some rid" and "rid \<noteq> 0"
    and "artifacts_at w (length tr) (repo r) rid = Artifacts_listed arts"
  shows "res_status (fst (collect_run w output_dir r tr)) =
           (if some_downloaded w (repo r) (filter is_canonical arts) (Suc (length tr))
            then ''collected''
            else if \<exists>a \<in> set arts. is_fallback a then ''partial''
            else ''no_artifacts'')"
  using assms
  by (simp add: collect_run_def truthy_id_def case_prod_beta download_canonical_found
        download_fallback_found)

lemma collect_run_trace:
  assumes "completed r" and "run_id r = Some rid" and "rid \<noteq> 0"
    and "artifacts_at w (length tr) (repo r) rid = Artifacts_listed arts"
  shows "snd (collect_run w output_dir r tr) =
           tr @ Remote_list_artifacts (repo r) rid #
             map (\<lambda>a. Remote_download (repo r) (art_id a)) (filter is_canonical arts) @
             (if some_downloaded w (repo r) (filter is_canonical arts) (Suc (length tr)) then []
              else map (\<lambda>a. Remote_download (repo r) (art_id a)) (filter is_fallback arts))"
  using assms
  by (simp add: collect_run_def truthy_id_def case_prod_beta download_canonical_found
        download_fallback_found download_canonical_trace download_fallback_trace)

text \<open>
  C4, at the input where the code leaves it. The run of \<open>org/b\<close> is completed and lists
  one artifact, which matches a fallback token; its download fails. The result is
  \<open>partial\<close>, with an output directory, though nothing was downloaded: the second loop
  drops what \<^verbatim>\<open>download_artifact\<close> returns, where the first loop tests it.
\<close>

theorem partial_though_every_download_failed:
  "\<not> download_at demo_world 1 ''org/b'' 3 \<and>
   collect_run demo_world ''reports'' (demo_run ''org/b'' (Some 7) (Some ''completed'') True) [] =
     (\<lparr>res_repo = ''org/b'', res_status = ''partial'', res_reason = None,
       res_output_dir = Some ''reports/org-b'', res_error = None\<rparr>,
      [Remote_list_artifacts ''org/b'' 7, Remote_download ''org/b'' 3])"
  by (simp add: collect_run_def demo_world_def demo_run_def truthy_id_def download_artifact_def
        is_canonical_def is_fallback_def py_in_def sublist_code repo_dir_def repo_dir_name_def)

text \<open>
  C5, as amended. For a completed record with a run id whose artifacts are listed, the
  status is \<open>collected\<close> exactly when an artifact whose name holds the canonical token is
  downloaded; otherwise it is \<open>partial\<close> when some artifact's name holds a fallback token
  and \<open>no_artifacts\<close> when none does. So a list with no canonical match and a fallback
  match gives \<open>partial\<close>, and a list that matches neither gives \<open>no_artifacts\<close>. The
  trace says when the fallback tier is asked: after every canonical match was fetched, and
  only when none of those downloads went through.
\<close>

theorem two_tier_artifact_matching:
  assumes "completed r" and "run_id r = Some rid" and "rid \<noteq> 0"
    and "artifacts_at w (length tr) (repo r) rid = Artifacts_listed arts"
  shows "res_status (fst (collect_run w output_dir r tr)) =
           (if some_downloaded w (repo r) (filter is_canonical arts) (Suc (length tr))
            then ''collected''
            else if \<exists>a \<in> set arts. is_fallback a then ''partial''
            else ''no_artifacts'')
         \<and> (\<not> (\<exists>a \<in> set arts. is_canonical a) \<and> (\<exists>a \<in> set arts. is_fallback a) \<longrightarrow>
              res_status (fst (collect_run w output_dir r tr)) = ''partial'')
         \<and> (\<not> (\<exists>a \<in> set arts. is_canonical a) \<and> \<not> (\<exists>a \<in> set arts. is_fallback a) \<longrightarrow>
              res_status (fst (collect_run w output_dir r tr)) = ''no_artifacts'')
         \<and> snd (collect_run w output_dir r tr) =
             tr @ Remote_list_artifacts (repo r) rid #
               map (\<lambda>a. Remote_download (repo r) (art_id a)) (filter is_canonical arts) @
               (if some_downloaded w (repo r) (filter is_canonical arts) (Suc (length tr)) then []
                else map (\<lambda>a. Remote_download (repo r) (art_id a)) (filter is_fallback arts))"
proof -
  have none: "\<not> (\<exists>a \<in> set arts. is_canonical a) \<Longrightarrow> filter is_canonical arts = []"
    by (simp add: filter_empty_conv)
  show ?thesis
    using collect_run_status [OF assms, of output_dir] collect_run_trace [OF assms, of output_dir]
          none
    by auto
qed

text \<open>
  The run of \<open>org/a\<close>: its canonical artifact is downloaded, the status is \<open>collected\<close>
  and the fallback tier is not asked.
\<close>

theorem two_tier_artifact_matching_witness:
  "completed (demo_run ''org/a'' (Some 9) (Some ''completed'') True) \<and>
   artifacts_at demo_world 0 ''org/a'' 9 =
     Artifacts_listed [\<lparr>art_name = ''nim-scan-report-a'', art_id = 1\<rparr>,
                       \<lparr>art_name = ''logs'', art_id = 2\<rparr>] \<and>
   res_status (fst (collect_run demo_world ''reports''
                      (demo_run ''org/a'' (Some 9) (Some ''completed'') True) [])) = ''collected'' \<and>
   snd (collect_run demo_world ''reports''
          (demo_run ''org/a'' (Some 9) (Some ''completed'') True) []) =
     [Remote_list_artifacts ''org/a'' 9, Remote_download ''org/a'' 1]"
proof -
  let ?r = "demo_run ''org/a'' (Some 9) (Some ''completed'') True"
  let ?arts = "[\<lparr>art_name = ''nim-scan-report-a'', art_id = 1\<rparr>,
                \<lparr>art_name = ''logs'', art_id = 2\<rparr>]"
  have h1: "completed ?r" by (simp add: demo_run_def)
  have h2: "run_id ?r = Some 9" by (simp add: demo_run_def)
  have h3: "(9::int) \<noteq> 0" by simp
  have h4: "artifacts_at demo_world (length ([]::event list)) (repo ?r) 9 = Artifacts_listed ?arts"
    by (simp add: demo_world_def demo_run_def)
  have c: "filter is_canonical ?arts = [\<lparr>art_name = ''nim-scan-report-a'', art_id = 1\<rparr>]"
    by (simp add: is_canonical_def py_in_def sublist_code)
  have d: "download_at demo_world (Suc 0) ''org/a'' 1"
    by (simp add: demo_world_def)
  show ?thesis
    using two_tier_artifact_matching [OF h1 h2 h3 h4, of "''reports''"] h1 h4 c d
    by (simp add: demo_run_def)
qed

text \<open>
  C5 as it is stated fails twice over. The run of \<open>org/c\<close> lists an artifact whose name
  holds the canonical token, and the status is \<open>no_artifacts\<close>, not \<open>collected\<close>,
  because its download fails. The run of \<open>org/d\<close> lists a canonical match too, and the
  fallback tier is asked all the same: the status is \<open>partial\<close>.
\<close>

theorem canonical_match_not_collected:
  "is_canonical \<lparr>art_name = ''nim-scan-report'', art_id = 4\<rparr> \<and>
   collect_run demo_world ''reports'' (demo_run ''org/c'' (Some 8) (Some ''completed'') True) [] =
     (\<lparr>res_repo = ''org/c'', res_status = ''no_artifacts'', res_reason = None,
       res_output_dir = None, res_error = None\<rparr>,
      [Remote_list_artifacts ''org/c'' 8, Remote_download ''org/c'' 4]) \<and>
   collect_run demo_world ''reports'' (demo_run ''org/d'' (Some 8) (Some ''completed'') True) [] =
     (\<lparr>res_repo = ''org/d'', res_status = ''partial'', res_reason = None,
       res_output_dir = Some ''reports/org-d'', res_error = None\<rparr>,
      [Remote_list_artifacts ''org/d'' 8, Remote_download ''org/d'' 5,
       Remote_download ''org/d'' 6])"
  by (simp add: collect_run_def demo_world_def demo_run_def truthy_id_def download_artifact_def
        is_canonical_def is_fallback_def py_in_def sublist_code repo_dir_def repo_dir_name_def)

section \<open>Properties of aggregate\_reports.py\<close>

subsection \<open>Counting\<close>

lemma map_of_bump:
  "map_of (map (\<lambda>(k', n). if k' = k then (k', Suc n) else (k', n)) c) x =
     (if x = k then map_option Suc (map_of c x) else map_of c x)"
  by (induction c) auto

text \<open>\<^verbatim>\<open>counter[k] += 1\<close> adds one to the count of \<open>k\<close> and to no other.\<close>

lemma count_of_incr:
  "count_of (incr c k) x = count_of c x + (if x = k then 1 else 0)"
proof (cases "k \<in> fst ` set c")
  case True
  then obtain n where "map_of c k = Some n"
    by (metis domD dom_map_of_conv_image_fst)
  then show ?thesis
    using True by (simp add: count_of_def incr_def map_of_bump)
next
  case False
  then have "map_of c k = None"
    by (simp add: map_of_eq_None_iff)
  then show ?thesis
    using False by (auto simp: count_of_def incr_def map_add_def split: option.split)
qed

lemma keys_incr: "fst ` set (incr c k) = insert k (fst ` set c)"
  by (force simp: incr_def split: if_splits)

lemma counted_Cons: "counted c (x # bs) = count_of c (Key_str x) + counted c bs"
  by (simp add: counted_def)

lemma counted_incr_other:
  "b \<notin> set bs \<Longrightarrow> counted (incr c (Key_str b)) bs = counted c bs"
  by (induction bs) (auto simp: counted_Cons count_of_incr counted_def)

lemma counted_incr:
  assumes "distinct bs" and "b \<in> set bs"
  shows "counted (incr c (Key_str b)) bs = Suc (counted c bs)"
  using assms
proof (induction bs)
  case Nil
  then show ?case by simp
next
  case (Cons x bs)
  show ?case
  proof (cases "x = b")
    case True
    then have "b \<notin> set bs" using Cons.prems by simp
    then show ?thesis
      using True by (simp add: counted_Cons counted_incr_other count_of_incr)
  next
    case False
    then have "b \<in> set bs" and "distinct bs" using Cons.prems by auto
    then show ?thesis
      using Cons.IH False by (simp add: counted_Cons count_of_incr)
  qed
qed

text \<open>Every summary falls into one of the four buckets of each table.\<close>

lemma support_bucket_cases: "support_bucket s \<in> set support_buckets"
  by (simp add: support_bucket_def support_buckets_def Let_def)

lemma usage_bucket_cases: "usage_bucket s \<in> set usage_buckets"
  by (simp add: usage_bucket_def usage_buckets_def Let_def)

subsection \<open>One report, then all of them\<close>

lemma tally_report_ok:
  assumes "well_shaped report"
  shows "\<exists>t'. tally_report report t = Inr t'"
proof -
  obtain k where "hash_key (dict_get report ''classification'' (JStr ''UNKNOWN'')) = Inr k"
    using assms
    by (cases "dict_get report ''classification'' (JStr ''UNKNOWN'')")
       (auto simp: well_shaped_def is_hashable_def)
  moreover obtain s where "as_dict (dict_get report ''summary'' (JObj [])) = Inr s"
    using assms
    by (cases "dict_get report ''summary'' (JObj [])") (auto simp: well_shaped_def is_object_def)
  ultimately show ?thesis
    by (simp add: tally_report_def)
qed

lemma tally_report_counts:
  assumes "tally_report report t = Inr t'"
  shows "counted (support_types t') support_buckets =
           Suc (counted (support_types t) support_buckets)"
    and "counted (actions_usage t') usage_buckets =
           Suc (counted (actions_usage t) usage_buckets)"
    and "fst ` set (support_types t') \<subseteq>
           fst ` set (support_types t) \<union> Key_str ` set support_buckets"
    and "fst ` set (actions_usage t') \<subseteq>
           fst ` set (actions_usage t) \<union> Key_str ` set usage_buckets"
proof -
  obtain k s where t': "t' = \<lparr>classifications = incr (classifications t) k,
                     support_types = incr (support_types t) (Key_str (support_bucket s)),
                     actions_usage = incr (actions_usage t) (Key_str (usage_bucket s))\<rparr>"
    using assms by (auto simp: tally_report_def split: sum.splits)
  have d1: "distinct support_buckets" by (simp add: support_buckets_def)
  have d2: "distinct usage_buckets" by (simp add: usage_buckets_def)
  show "counted (support_types t') support_buckets =
          Suc (counted (support_types t) support_buckets)"
    using t' counted_incr [OF d1 support_bucket_cases] by simp
  show "counted (actions_usage t') usage_buckets =
          Suc (counted (actions_usage t) usage_buckets)"
    using t' counted_incr [OF d2 usage_bucket_cases] by simp
  show "fst ` set (support_types t') \<subseteq>
          fst ` set (support_types t) \<union> Key_str ` set support_buckets"
    using t' support_bucket_cases [of s] by (auto simp: keys_incr)
  show "fst ` set (actions_usage t') \<subseteq>
          fst ` set (actions_usage t) \<union> Key_str ` set usage_buckets"
    using t' usage_bucket_cases [of s] by (auto simp: keys_incr)
qed

lemma tally_all_ok:
  assumes "list_all well_shaped reports"
  shows "\<exists>t'. tally_all reports t = Inr t'"
  using assms
proof (induction reports arbitrary: t)
  case Nil
  show ?case by simp
next
  case (Cons r reports)
  then obtain t1 where "tally_report r t = Inr t1"
    using tally_report_ok [of r t] by auto
  then show ?case
    using Cons by simp
qed

lemma tally_all_support:
  assumes "tally_all reports t = Inr t'"
  shows "counted (support_types t') support_buckets =
           counted (support_types t) support_buckets + length reports"
  using assms
proof (induction reports arbitrary: t)
  case Nil
  then show ?case by simp
next
  case (Cons r reports)
  then obtain t1 where a: "tally_report r t = Inr t1" and b: "tally_all reports t1 = Inr t'"
    by (auto split: sum.splits)
  show ?case
    using Cons.IH [OF b] tally_report_counts(1) [OF a] by simp
qed

lemma tally_all_usage:
  assumes "tally_all reports t = Inr t'"
  shows "counted (actions_usage t') usage_buckets =
           counted (actions_usage t) usage_buckets + length reports"
  using assms
proof (induction reports arbitrary: t)
  case Nil
  then show ?case by simp
next
  case (Cons r reports)
  then obtain t1 where a: "tally_report r t = Inr t1" and b: "tally_all reports t1 = Inr t'"
    by (auto split: sum.splits)
  show ?case
    using Cons.IH [OF b] tally_report_counts(2) [OF a] by simp
qed

lemma tally_all_support_keys:
  assumes "tally_all reports t = Inr t'"
  shows "fst ` set (support_types t') \<subseteq>
           fst ` set (support_types t) \<union> Key_str ` set support_buckets"
  using assms
proof (induction reports arbitrary: t)
  case Nil
  then show ?case by simp
next
  case (Cons r reports)
  then obtain t1 where a: "tally_report r t = Inr t1" and b: "tally_all reports t1 = Inr t'"
    by (auto split: sum.splits)
  show ?case
    using Cons.IH [OF b] tally_report_counts(3) [OF a] by blast
qed

lemma tally_all_usage_keys:
  assumes "tally_all reports t = Inr t'"
  shows "fst ` set (actions_usage t') \<subseteq>
           fst ` set (actions_usage t) \<union> Key_str ` set usage_buckets"
  using assms
proof (induction reports arbitrary: t)
  case Nil
  then show ?case by simp
next
  case (Cons r reports)
  then obtain t1 where a: "tally_report r t = Inr t1" and b: "tally_all reports t1 = Inr t'"
    by (auto split: sum.splits)
  show ?case
    using Cons.IH [OF b] tally_report_counts(4) [OF a] by blast
qed

text \<open>
  What a report adds: one to the bucket its summary falls into, in each of the two tables.
\<close>

lemma tally_report_returned:
  assumes "tally_report report t = Inr t'"
  shows "support_types t' =
           incr (support_types t) (Key_str (support_bucket (summary_of report)))"
    and "actions_usage t' =
           incr (actions_usage t) (Key_str (usage_bucket (summary_of report)))"
  using assms
  by (cases "dict_get report ''summary'' (JObj [])";
      auto simp: tally_report_def summary_of_def split: sum.splits)+

lemma tally_all_support_bucket:
  assumes "tally_all reports t = Inr t'"
  shows "count_of (support_types t') (Key_str b) =
           count_of (support_types t) (Key_str b) +
           how_many (\<lambda>r. support_bucket (summary_of r) = b) reports"
  using assms
proof (induction reports arbitrary: t)
  case Nil
  then show ?case by (simp add: how_many_def)
next
  case (Cons r reports)
  then obtain t1 where a: "tally_report r t = Inr t1" and b: "tally_all reports t1 = Inr t'"
    by (auto split: sum.splits)
  show ?case
    using Cons.IH [OF b] tally_report_returned(1) [OF a]
    by (auto simp: count_of_incr how_many_def)
qed

lemma tally_all_usage_bucket:
  assumes "tally_all reports t = Inr t'"
  shows "count_of (actions_usage t') (Key_str b) =
           count_of (actions_usage t) (Key_str b) +
           how_many (\<lambda>r. usage_bucket (summary_of r) = b) reports"
  using assms
proof (induction reports arbitrary: t)
  case Nil
  then show ?case by (simp add: how_many_def)
next
  case (Cons r reports)
  then obtain t1 where a: "tally_report r t = Inr t1" and b: "tally_all reports t1 = Inr t'"
    by (auto split: sum.splits)
  show ?case
    using Cons.IH [OF b] tally_report_returned(2) [OF a]
    by (auto simp: count_of_incr how_many_def)
qed

text \<open>The bucket of a report, by its two flags: the four rows of each table.\<close>

lemma support_bucket_by_flags:
  "(support_bucket (summary_of r) = ''both'') =
     (flag r ''supports_local_nim'' \<and> flag r ''supports_hosted_nim'')"
  "(support_bucket (summary_of r) = ''local_only'') =
     (flag r ''supports_local_nim'' \<and> \<not> flag r ''supports_hosted_nim'')"
  "(support_bucket (summary_of r) = ''hosted_only'') =
     (\<not> flag r ''supports_local_nim'' \<and> flag r ''supports_hosted_nim'')"
  "(support_bucket (summary_of r) = ''none'') =
     (\<not> flag r ''supports_local_nim'' \<and> \<not> flag r ''supports_hosted_nim'')"
  by (simp_all add: support_bucket_def flag_def Let_def)

lemma usage_bucket_by_flags:
  "(usage_bucket (summary_of r) = ''both_in_actions'') =
     (flag r ''uses_local_nim_in_actions'' \<and> flag r ''uses_hosted_nim_in_actions'')"
  "(usage_bucket (summary_of r) = ''local_in_actions'') =
     (flag r ''uses_local_nim_in_actions'' \<and> \<not> flag r ''uses_hosted_nim_in_actions'')"
  "(usage_bucket (summary_of r) = ''hosted_in_actions'') =
     (\<not> flag r ''uses_local_nim_in_actions'' \<and> flag r ''uses_hosted_nim_in_actions'')"
  "(usage_bucket (summary_of r) = ''none_in_actions'') =
     (\<not> flag r ''uses_local_nim_in_actions'' \<and> \<not> flag r ''uses_hosted_nim_in_actions'')"
  by (simp_all add: usage_bucket_def flag_def Let_def)

lemma aggregate_statistics_ok:
  assumes "list_all well_shaped reports"
  shows "\<exists>stats. aggregate_statistics reports = Inr stats"
proof -
  obtain t where
    "tally_all reports \<lparr>classifications = [], support_types = [], actions_usage = []\<rparr> = Inr t"
    using tally_all_ok [OF assms] by blast
  then show ?thesis
    by (simp add: aggregate_statistics_def)
qed

text \<open>
  C8, as amended. For every sequence of reports in which each report's summary, when it
  has one, is an object, and its classification, when it has one, is not a list or an
  object, \<^verbatim>\<open>aggregate_statistics\<close> returns its tables, and in them every report is
  counted in one support-type bucket and one actions-usage bucket, the one its two flags
  give, a flag that is missing counting as false: \<open>both\<close> counts the reports with both
  flags true, \<open>local_only\<close> those with the local flag alone, \<open>hosted_only\<close> those with
  the hosted flag alone, \<open>none\<close> those with neither, and likewise the four usage buckets.
  In each of the two tables the counts of the four buckets add up to the number of
  reports, and the table has no other key.
\<close>

theorem tallies_partition_the_reports:
  assumes "list_all well_shaped reports"
  shows "\<exists>stats. aggregate_statistics reports = Inr stats \<and>
           bucket_count stats ''by_support_type'' ''both'' =
             how_many (\<lambda>r. flag r ''supports_local_nim'' \<and> flag r ''supports_hosted_nim'')
               reports \<and>
           bucket_count stats ''by_support_type'' ''local_only'' =
             how_many (\<lambda>r. flag r ''supports_local_nim'' \<and> \<not> flag r ''supports_hosted_nim'')
               reports \<and>
           bucket_count stats ''by_support_type'' ''hosted_only'' =
             how_many (\<lambda>r. \<not> flag r ''supports_local_nim'' \<and> flag r ''supports_hosted_nim'')
               reports \<and>
           bucket_count stats ''by_support_type'' ''none'' =
             how_many (\<lambda>r. \<not> flag r ''supports_local_nim'' \<and> \<not> flag r ''supports_hosted_nim'')
               reports \<and>
           bucket_count stats ''by_actions_usage'' ''both_in_actions'' =
             how_many (\<lambda>r. flag r ''uses_local_nim_in_actions'' \<and>
                            flag r ''uses_hosted_nim_in_actions'') reports \<and>
           bucket_count stats ''by_actions_usage'' ''local_in_actions'' =
             how_many (\<lambda>r. flag r ''uses_local_nim_in_actions'' \<and>
                            \<not> flag r ''uses_hosted_nim_in_actions'') reports \<and>
           bucket_count stats ''by_actions_usage'' ''hosted_in_actions'' =
             how_many (\<lambda>r. \<not> flag r ''uses_local_nim_in_actions'' \<and>
                            flag r ''uses_hosted_nim_in_actions'') reports \<and>
           bucket_count stats ''by_actions_usage'' ''none_in_actions'' =
             how_many (\<lambda>r. \<not> flag r ''uses_local_nim_in_actions'' \<and>
                            \<not> flag r ''uses_hosted_nim_in_actions'') reports \<and>
           sum_list (map (bucket_count stats ''by_support_type'') support_buckets) =
             length reports \<and>
           sum_list (map (bucket_count stats ''by_actions_usage'') usage_buckets) =
             length reports \<and>
           (\<exists>c. map_of stats ''by_support_type'' = Some c \<and>
                fst ` set c \<subseteq> Key_str ` set support_buckets) \<and>
           (\<exists>c. map_of stats ''by_actions_usage'' = Some c \<and>
                fst ` set c \<subseteq> Key_str ` set usage_buckets) \<and>
           (\<forall>s. support_bucket s \<in> set support_buckets \<and> usage_bucket s \<in> set usage_buckets)"
proof -
  let ?t0 = "\<lparr>classifications = [], support_types = [], actions_usage = []\<rparr>"
  obtain t where t: "tally_all reports ?t0 = Inr t"
    using tally_all_ok [OF assms] by blast
  let ?stats = "[(''by_classification'', classifications t),
                 (''by_support_type'', support_types t),
                 (''by_actions_usage'', actions_usage t)]"
  have stats: "aggregate_statistics reports = Inr ?stats"
    using t by (simp add: aggregate_statistics_def)
  have z1: "counted [] support_buckets = 0" by (simp add: counted_def count_of_def)
  have z2: "counted [] usage_buckets = 0" by (simp add: counted_def count_of_def)
  have s1: "bucket_count ?stats ''by_support_type'' =
              (\<lambda>b. count_of (support_types t) (Key_str b))"
    by (simp add: fun_eq_iff bucket_count_def)
  have s2: "bucket_count ?stats ''by_actions_usage'' =
              (\<lambda>b. count_of (actions_usage t) (Key_str b))"
    by (simp add: fun_eq_iff bucket_count_def)
  have b1: "bucket_count ?stats ''by_support_type'' b =
              how_many (\<lambda>r. support_bucket (summary_of r) = b) reports" for b
    using tally_all_support_bucket [OF t, of b] by (simp only: s1) (simp add: count_of_def)
  have b2: "bucket_count ?stats ''by_actions_usage'' b =
              how_many (\<lambda>r. usage_bucket (summary_of r) = b) reports" for b
    using tally_all_usage_bucket [OF t, of b] by (simp only: s2) (simp add: count_of_def)
  have f1: "bucket_count ?stats ''by_support_type'' ''both'' =
              how_many (\<lambda>r. flag r ''supports_local_nim'' \<and> flag r ''supports_hosted_nim'')
                reports"
    using b1 [of "''both''"] by (simp only: support_bucket_by_flags)
  have f2: "bucket_count ?stats ''by_support_type'' ''local_only'' =
              how_many (\<lambda>r. flag r ''supports_local_nim'' \<and> \<not> flag r ''supports_hosted_nim'')
                reports"
    using b1 [of "''local_only''"] by (simp only: support_bucket_by_flags)
  have f3: "bucket_count ?stats ''by_support_type'' ''hosted_only'' =
              how_many (\<lambda>r. \<not> flag r ''supports_local_nim'' \<and> flag r ''supports_hosted_nim'')
                reports"
    using b1 [of "''hosted_only''"] by (simp only: support_bucket_by_flags)
  have f4: "bucket_count ?stats ''by_support_type'' ''none'' =
              how_many (\<lambda>r. \<not> flag r ''supports_local_nim'' \<and> \<not> flag r ''supports_hosted_nim'')
                reports"
    using b1 [of "''none''"] by (simp only: support_bucket_by_flags)
  have g1: "bucket_count ?stats ''by_actions_usage'' ''both_in_actions'' =
              how_many (\<lambda>r. flag r ''uses_local_nim_in_actions'' \<and>
                             flag r ''uses_hosted_nim_in_actions'') reports"
    using b2 [of "''both_in_actions''"] by (simp only: usage_bucket_by_flags)
  have g2: "bucket_count ?stats ''by_actions_usage'' ''local_in_actions'' =
              how_many (\<lambda>r. flag r ''uses_local_nim_in_actions'' \<and>
                             \<not> flag r ''uses_hosted_nim_in_actions'') reports"
    using b2 [of "''local_in_actions''"] by (simp only: usage_bucket_by_flags)
  have g3: "bucket_count ?stats ''by_actions_usage'' ''hosted_in_actions'' =
              how_many (\<lambda>r. \<not> flag r ''uses_local_nim_in_actions'' \<and>
                             flag r ''uses_hosted_nim_in_actions'') reports"
    using b2 [of "''hosted_in_actions''"] by (simp only: usage_bucket_by_flags)
  have g4: "bucket_count ?stats ''by_actions_usage'' ''none_in_actions'' =
              how_many (\<lambda>r. \<not> flag r ''uses_local_nim_in_actions'' \<and>
                             \<not> flag r ''uses_hosted_nim_in_actions'') reports"
    using b2 [of "''none_in_actions''"] by (simp only: usage_bucket_by_flags)
  have c1: "sum_list (map (bucket_count ?stats ''by_support_type'') support_buckets) =
              length reports"
    using tally_all_support [OF t] z1 by (simp only: s1) (simp add: counted_def)
  have c2: "sum_list (map (bucket_count ?stats ''by_actions_usage'') usage_buckets) =
              length reports"
    using tally_all_usage [OF t] z2 by (simp only: s2) (simp add: counted_def)
  have k1: "fst ` set (support_types t) \<subseteq> Key_str ` set support_buckets"
    using tally_all_support_keys [OF t] by simp
  have k2: "fst ` set (actions_usage t) \<subseteq> Key_str ` set usage_buckets"
    using tally_all_usage_keys [OF t] by simp
  have m1: "\<exists>c. map_of ?stats ''by_support_type'' = Some c \<and>
                fst ` set c \<subseteq> Key_str ` set support_buckets"
    using k1 by simp
  have m2: "\<exists>c. map_of ?stats ''by_actions_usage'' = Some c \<and>
                fst ` set c \<subseteq> Key_str ` set usage_buckets"
    using k2 by simp
  have all: "\<forall>s. support_bucket s \<in> set support_buckets \<and> usage_bucket s \<in> set usage_buckets"
    using support_bucket_cases usage_bucket_cases by blast
  show ?thesis
    by (rule exI [of _ ?stats]) (intro conjI stats f1 f2 f3 f4 g1 g2 g3 g4 c1 c2 m1 m2 all)
qed

lemma demo_reports_statistics:
  "aggregate_statistics demo_reports =
     Inr [(''by_classification'', [(Key_str ''LOCAL'', 1), (Key_str ''UNKNOWN'', 1)]),
          (''by_support_type'', [(Key_str ''local_only'', 1), (Key_str ''none'', 1)]),
          (''by_actions_usage'', [(Key_str ''local_in_actions'', 1),
                                  (Key_str ''none_in_actions'', 1)])]"
  by (simp add: aggregate_statistics_def demo_reports_def tally_report_def dict_get_def incr_def
        support_bucket_def usage_bucket_def)

text \<open>
  Two reports, the second with no summary and no classification: one lands in
  \<open>local_only\<close> and \<open>local_in_actions\<close>, the other in \<open>none\<close> and
  \<open>none_in_actions\<close>, and each table adds up to two.
\<close>

theorem tallies_partition_the_reports_witness:
  "list_all well_shaped demo_reports \<and>
   (\<exists>stats. aggregate_statistics demo_reports = Inr stats \<and>
      bucket_count stats ''by_support_type'' ''both'' = 0 \<and>
      bucket_count stats ''by_support_type'' ''local_only'' = 1 \<and>
      bucket_count stats ''by_support_type'' ''hosted_only'' = 0 \<and>
      bucket_count stats ''by_support_type'' ''none'' = 1 \<and>
      bucket_count stats ''by_actions_usage'' ''local_in_actions'' = 1 \<and>
      bucket_count stats ''by_actions_usage'' ''none_in_actions'' = 1 \<and>
      sum_list (map (bucket_count stats ''by_support_type'') support_buckets) = 2 \<and>
      sum_list (map (bucket_count stats ''by_actions_usage'') usage_buckets) = 2)"
proof -
  have ws: "list_all well_shaped demo_reports"
    by (simp add: demo_reports_def well_shaped_def dict_get_def is_hashable_def is_object_def)
  have len: "length demo_reports = 2"
    by (simp add: demo_reports_def)
  have h1: "how_many (\<lambda>r. flag r ''supports_local_nim'' \<and> flag r ''supports_hosted_nim'')
              demo_reports = 0"
    and h2: "how_many (\<lambda>r. flag r ''supports_local_nim'' \<and> \<not> flag r ''supports_hosted_nim'')
              demo_reports = 1"
    and h3: "how_many (\<lambda>r. \<not> flag r ''supports_local_nim'' \<and> flag r ''supports_hosted_nim'')
              demo_reports = 0"
    and h4: "how_many (\<lambda>r. \<not> flag r ''supports_local_nim'' \<and> \<not> flag r ''supports_hosted_nim'')
              demo_reports = 1"
    and h5: "how_many (\<lambda>r. flag r ''uses_local_nim_in_actions'' \<and>
                            \<not> flag r ''uses_hosted_nim_in_actions'') demo_reports = 1"
    and h6: "how_many (\<lambda>r. \<not> flag r ''uses_local_nim_in_actions'' \<and>
                            \<not> flag r ''uses_hosted_nim_in_actions'') demo_reports = 1"
    by (simp_all add: how_many_def demo_reports_def flag_def summary_of_def dict_get_def)
  show ?thesis
    using tallies_partition_the_reports [OF ws] ws
    unfolding h1 h2 h3 h4 h5 h6 len
    by blast
qed

text \<open>
  C8 as it is stated fails for a report whose summary is there and is not an object, here
  \<^verbatim>\<open>{"summary": null}\<close>: \<^verbatim>\<open>summary.get\<close> raises, no table is returned and no aggregate
  is written.
\<close>

theorem null_summary_raises:
  "aggregate_statistics [[(''summary'', JNull)]] = Inl AttributeError \<and>
   aggregate ''2026-11-04T12:00:00+00:00'' [[(''summary'', JNull)]] = Inl AttributeError"
  by (simp add: aggregate_def aggregate_statistics_def tally_report_def dict_get_def)

subsection \<open>The aggregate that is written\<close>

lemma aggregate_empty:
  "aggregate now_iso [] =
     Inr \<lparr>metadata = [(''aggregation_time'', JStr now_iso), (''total_repos'', JInt 0)],
          summary = [], repositories = []\<rparr>"
  by (simp add: aggregate_def)

text \<open>
  C7, as amended. When no report was loaded, the aggregation succeeds and writes an
  aggregate whose metadata holds the time and \<open>total_repos = 0\<close> and nothing else, whose
  summary is the empty dictionary and whose \<open>repositories\<close> is the empty sequence.
\<close>

theorem empty_aggregate_is_bare:
  assumes "load_repo_reports reports_dir listing = []"
  shows "main_aggregate now_iso reports_dir listing =
           Inr \<lparr>metadata = [(''aggregation_time'', JStr now_iso), (''total_repos'', JInt 0)],
                summary = [], repositories = []\<rparr>"
  using assms by (simp add: main_aggregate_def aggregate_empty)

text \<open>A reports directory that does not exist.\<close>

theorem empty_aggregate_is_bare_witness:
  "load_repo_reports ''reports'' None = [] \<and>
   main_aggregate ''2026-11-04T12:00:00+00:00'' ''reports'' None =
     Inr \<lparr>metadata = [(''aggregation_time'', JStr ''2026-11-04T12:00:00+00:00''),
                      (''total_repos'', JInt 0)],
          summary = [], repositories = []\<rparr>"
proof -
  have h: "load_repo_reports ''reports'' None = []"
    by (simp add: load_repo_reports_def)
  show ?thesis
    using empty_aggregate_is_bare [OF h, of "''2026-11-04T12:00:00+00:00''"] h by simp
qed

text \<open>
  C7 as it is stated fails: in the aggregate of an empty reports directory none of the
  three tables is present under \<open>summary\<close>, and the metadata has no
  \<open>successful_scans\<close>.
\<close>

theorem empty_aggregate_lacks_tables_and_successful_scans:
  "(case main_aggregate ''2026-11-04T12:00:00+00:00'' ''reports'' (Some []) of
      Inl e \<Rightarrow> False
    | Inr a \<Rightarrow>
        map_of (summary a) ''by_classification'' = None \<and>
        map_of (summary a) ''by_support_type'' = None \<and>
        map_of (summary a) ''by_actions_usage'' = None \<and>
        map_of (metadata a) ''successful_scans'' = None \<and>
        map_of (metadata a) ''total_repos'' = Some (JInt 0))"
  by (simp add: main_aggregate_def load_repo_reports_def aggregate_def)

lemma aggregate_metadata:
  assumes "reports \<noteq> []" and "aggregate now_iso reports = Inr a"
  shows "metadata a = [(''aggregation_time'', JStr now_iso),
                       (''total_repos'', JInt (int (length reports))),
                       (''successful_scans'', JInt (int (length reports)))]"
  using assms by (auto simp: aggregate_def split: sum.splits)

text \<open>
  C10. When at least one report was loaded, the aggregate that is written has
  \<open>successful_scans\<close> equal to \<open>total_repos\<close>, both the number of reports loaded;
  and it is written whenever the loaded reports can be tallied. The number is that of the
  report files, not of the repositories.
\<close>

theorem successful_scans_is_number_of_loaded_reports:
  assumes "load_repo_reports reports_dir listing \<noteq> []"
  shows "(main_aggregate now_iso reports_dir listing = Inr a \<longrightarrow>
            map_of (metadata a) ''successful_scans'' =
              Some (JInt (int (length (load_repo_reports reports_dir listing)))) \<and>
            map_of (metadata a) ''total_repos'' =
              Some (JInt (int (length (load_repo_reports reports_dir listing))))) \<and>
         (list_all well_shaped (load_repo_reports reports_dir listing) \<longrightarrow>
            (\<exists>a'. main_aggregate now_iso reports_dir listing = Inr a'))"
proof -
  let ?reports = "load_repo_reports reports_dir listing"
  have "main_aggregate now_iso reports_dir listing = Inr a \<Longrightarrow>
          metadata a = [(''aggregation_time'', JStr now_iso),
                        (''total_repos'', JInt (int (length ?reports))),
                        (''successful_scans'', JInt (int (length ?reports)))]"
    using aggregate_metadata [OF assms, of now_iso a] by (simp add: main_aggregate_def)
  moreover have "list_all well_shaped ?reports \<Longrightarrow>
                   \<exists>a'. main_aggregate now_iso reports_dir listing = Inr a'"
    using assms aggregate_statistics_ok [of ?reports]
    by (auto simp: main_aggregate_def aggregate_def)
  ultimately show ?thesis
    by auto
qed

lemma demo_listing_loaded:
  "load_repo_reports ''reports'' (Some demo_listing) =
     [[(''classification'', JStr ''DOCKER''), (''_source_dir'', JStr ''reports/org-a''),
       (''_source_file'', JStr ''docker-image-report.json'')],
      [(''_source_dir'', JStr ''reports/org-a''),
       (''_source_file'', JStr ''Hosted-NIM-Report.json'')]]"
  by (simp add: load_repo_reports_def demo_listing_def load_repo_dir_def startswith_def
        load_other_def dict_set_def py_in_def lower_def lower_char_def sublist_code suffix_def)

text \<open>
  One repository directory with two report files and no canonical one: two reports are
  loaded, and the aggregate says two repositories and two successful scans.
\<close>

theorem successful_scans_is_number_of_loaded_reports_witness:
  "length demo_listing = 1 \<and>
   length (load_repo_reports ''reports'' (Some demo_listing)) = 2 \<and>
   (\<exists>a. main_aggregate ''2026-11-04T12:00:00+00:00'' ''reports'' (Some demo_listing) = Inr a \<and>
        map_of (metadata a) ''successful_scans'' = Some (JInt 2) \<and>
        map_of (metadata a) ''total_repos'' = Some (JInt 2))"
proof -
  let ?reports = "load_repo_reports ''reports'' (Some demo_listing)"
  have ne: "?reports \<noteq> []"
    by (simp add: demo_listing_loaded)
  have len: "length ?reports = 2"
    by (simp add: demo_listing_loaded)
  have ws: "list_all well_shaped ?reports"
    by (simp add: demo_listing_loaded well_shaped_def dict_get_def is_hashable_def is_object_def)
  obtain a where a: "main_aggregate ''2026-11-04T12:00:00+00:00'' ''reports'' (Some demo_listing) = Inr a"
    using successful_scans_is_number_of_loaded_reports [OF ne] ws by blast
  have "map_of (metadata a) ''successful_scans'' = Some (JInt 2)"
    and "map_of (metadata a) ''total_repos'' = Some (JInt 2)"
    using successful_scans_is_number_of_loaded_reports [OF ne, of "''2026-11-04T12:00:00+00:00''" a]
          a len
    by simp_all
  then show ?thesis
    using a len by (auto simp: demo_listing_def)
qed

section \<open>The name of a repository's directory\<close>

lemma repo_dir_name_no_slash: "CHR ''/'' \<notin> set (repo_dir_name x)"
  by (auto simp: repo_dir_name_def)

text \<open>
  C9, at the input where the code leaves it. The repository \<open>c\<close> of the owner \<open>a-b\<close>
  and the repository \<open>b-c\<close> of the owner \<open>a\<close> are two identifiers with one directory
  name, \<open>a-b-c\<close>, from which neither can be told. Collected in a world where every
  download goes through, both runs are \<open>collected\<close> into the one directory
  \<open>reports/a-b-c\<close>, which the source creates as the repository's own.
\<close>

theorem repo_dir_name_collision:
  "''a-b/c'' \<noteq> ''a/b-c'' \<and>
   repo_dir_name ''a-b/c'' = ''a-b-c'' \<and>
   repo_dir_name ''a/b-c'' = ''a-b-c'' \<and>
   fst (collect_run (demo_world\<lparr>download_at := (\<lambda>n rn aid. True)\<rparr>) ''reports''
          (demo_run ''a-b/c'' (Some 11) (Some ''completed'') True) []) =
     \<lparr>res_repo = ''a-b/c'', res_status = ''collected'', res_reason = None,
      res_output_dir = Some ''reports/a-b-c'', res_error = None\<rparr> \<and>
   fst (collect_run (demo_world\<lparr>download_at := (\<lambda>n rn aid. True)\<rparr>) ''reports''
          (demo_run ''a/b-c'' (Some 12) (Some ''completed'') True) []) =
     \<lparr>res_repo = ''a/b-c'', res_status = ''collected'', res_reason = None,
      res_output_dir = Some ''reports/a-b-c'', res_error = None\<rparr>"
  by (simp add: collect_run_def demo_world_def demo_run_def truthy_id_def download_artifact_def
        is_canonical_def is_fallback_def py_in_def sublist_code repo_dir_def repo_dir_name_def)

end
